theory Spec2Isabelle
  imports Main "HOL-Library.Char_ord" "HOL-Library.List_Lexorder"
begin

section \<open>Python values used by the version matcher\<close>

text \<open>
  A Python \<open>str\<close> is modelled as a HOL \<open>string\<close>: one \<open>char\<close> per code point, for
  the code points 0 to 255. The order on \<open>char\<close> (by code) and the lexicographic order on
  lists make \<open>(<)\<close> on \<open>string\<close> the comparison of Python strings.
\<close>

datatype error =
    ValueError string
  | TypeError string
  | AttributeError string
  | OverflowError string
  | OSError string

text \<open>
  The \<open>tzinfo\<close> objects of \<open>datetime\<close>: the singleton \<open>timezone.utc\<close>; another
  \<open>datetime.timezone\<close>, whose offset from UTC (in microseconds) is fixed; and an object
  of any other subclass of \<open>tzinfo\<close> (such as a \<open>zoneinfo.ZoneInfo\<close>), given by a number
  that identifies it and by the table of what its \<open>utcoffset\<close> answers: a row
  \<open>(from, to, offset, offset')\<close> gives the answer for the wall-clock readings from
  \<open>from\<close> up to \<open>to\<close>, \<open>offset\<close> with \<open>fold = 0\<close> and \<open>offset'\<close> with \<open>fold = 1\<close>; the
  answer is \<open>None\<close> where the row says so and outside the rows. An offset lies strictly
  within a day, as \<open>datetime\<close> requires of \<open>utcoffset\<close>. Two \<open>timezone\<close> objects of one
  offset are not told apart: no operation used here distinguishes them.
\<close>

type_synonym offset_table = "(int \<times> int \<times> int option \<times> int option) list"

datatype tzinfo_obj = UTC | Timezone int | Zone nat offset_table

text \<open>
  \<open>datetime.datetime\<close>: \<open>wall\<close> is the reading of the calendar and clock fields
  (year to microsecond) in microseconds since 0001-01-01 00:00:00, \<open>tzinfo\<close> the time
  zone object (\<open>None\<close> for a naive value) and \<open>fold\<close> the attribute of that name.
\<close>

record datetime =
  wall :: int
  tzinfo :: "tzinfo_obj option"
  fold :: bool

text \<open>\<open>datetime.utcoffset()\<close>, in microseconds.\<close>

fun table_utcoffset :: "offset_table \<Rightarrow> int \<Rightarrow> bool \<Rightarrow> int option" where
  "table_utcoffset [] w f = None"
| "table_utcoffset ((lo, hi, off, off') # rows) w f =
     (if lo \<le> w \<and> w < hi then (if f then off' else off) else table_utcoffset rows w f)"

fun tz_utcoffset :: "tzinfo_obj \<Rightarrow> int \<Rightarrow> bool \<Rightarrow> int option" where
  "tz_utcoffset UTC w f = Some 0"
| "tz_utcoffset (Timezone off) w f = Some off"
| "tz_utcoffset (Zone i rows) w f = table_utcoffset rows w f"

definition utcoffset :: "datetime \<Rightarrow> int option" where
  "utcoffset d =
     (case tzinfo d of None \<Rightarrow> None | Some tz \<Rightarrow> tz_utcoffset tz (wall d) (fold d))"

definition utc_instant :: "datetime \<Rightarrow> int" where
  "utc_instant d = (case utcoffset d of None \<Rightarrow> wall d | Some off \<Rightarrow> wall d - off)"

definition aware :: "datetime \<Rightarrow> bool" where
  "aware d = (utcoffset d \<noteq> None)"

text \<open>
  The comparison of two datetimes, as \<open>datetime\<close> implements \<open>==\<close> and \<open><\<close>. Two values
  of one \<open>tzinfo\<close> object (two naive values among them), and two values of equal
  utcoffsets, are compared by their wall-clock readings, whatever their folds; two aware
  values of different utcoffsets by their readings less their utcoffsets; a naive and
  an aware value cannot be ordered. \<open>datetime_diff\<close> is the difference that decides,
  \<open>None\<close> in the last case.
\<close>

definition datetime_diff :: "datetime \<Rightarrow> datetime \<Rightarrow> int option" where
  "datetime_diff a b =
     (if tzinfo a = tzinfo b \<or> utcoffset a = utcoffset b then Some (wall a - wall b)
      else case (utcoffset a, utcoffset b) of
             (Some x, Some y) \<Rightarrow> Some ((wall a - x) - (wall b - y))
           | _ \<Rightarrow> None)"

text \<open>
  The utcoffset of a value depends on its \<open>fold\<close>: between two different \<open>tzinfo\<close>
  objects such a value is equal to no other (PEP 495).
\<close>

definition fold_dependent :: "datetime \<Rightarrow> bool" where
  "fold_dependent d = (utcoffset (d\<lparr>fold := \<not> fold d\<rparr>) \<noteq> utcoffset d)"

text \<open>\<open>a == b\<close> on datetimes: a naive and an aware value are never equal.\<close>

definition datetime_eq :: "datetime \<Rightarrow> datetime \<Rightarrow> bool" where
  "datetime_eq a b =
     (if tzinfo a = tzinfo b then wall a = wall b
      else datetime_diff a b = Some 0 \<and> \<not> fold_dependent a \<and> \<not> fold_dependent b)"

text \<open>\<open>a < b\<close> on datetimes raises TypeError between a naive and an aware value.\<close>

definition datetime_lt :: "datetime \<Rightarrow> datetime \<Rightarrow> error + bool" where
  "datetime_lt a b =
     (case datetime_diff a b of
        Some d \<Rightarrow> Inr (d < 0)
      | None \<Rightarrow> Inl (TypeError ''can't compare offset-naive and offset-aware datetimes''))"

datatype pyval = PInt int | PStr string | PNone | PDatetime datetime

fun py_eq :: "pyval \<Rightarrow> pyval \<Rightarrow> bool" where
  "py_eq (PInt a) (PInt b) = (a = b)"
| "py_eq (PStr a) (PStr b) = (a = b)"
| "py_eq PNone PNone = True"
| "py_eq (PDatetime a) (PDatetime b) = datetime_eq a b"
| "py_eq _ _ = False"

fun py_lt :: "pyval \<Rightarrow> pyval \<Rightarrow> error + bool" where
  "py_lt (PInt a) (PInt b) = Inr (a < b)"
| "py_lt (PStr a) (PStr b) = Inr (a < b)"
| "py_lt (PDatetime a) (PDatetime b) = datetime_lt a b"
| "py_lt _ _ = Inl (TypeError ''unsupported operand types for comparison'')"

definition py_gt :: "pyval \<Rightarrow> pyval \<Rightarrow> error + bool" where
  "py_gt a b = py_lt b a"

text \<open>
  The builtins \<open>max\<close> and \<open>min\<close> over an iterable: ValueError on the empty one,
  otherwise the first item is the candidate and a later item replaces it when
  \<open>item > candidate\<close> (resp. \<open>item < candidate\<close>).
\<close>

fun max_loop :: "pyval \<Rightarrow> pyval list \<Rightarrow> error + pyval" where
  "max_loop cur [] = Inr cur"
| "max_loop cur (x # xs) =
     (case py_gt x cur of
        Inl e \<Rightarrow> Inl e
      | Inr b \<Rightarrow> max_loop (if b then x else cur) xs)"

fun py_max :: "pyval list \<Rightarrow> error + pyval" where
  "py_max [] = Inl (ValueError ''max() arg is an empty sequence'')"
| "py_max (x # xs) = max_loop x xs"

fun min_loop :: "pyval \<Rightarrow> pyval list \<Rightarrow> error + pyval" where
  "min_loop cur [] = Inr cur"
| "min_loop cur (x # xs) =
     (case py_lt x cur of
        Inl e \<Rightarrow> Inl e
      | Inr b \<Rightarrow> min_loop (if b then x else cur) xs)"

fun py_min :: "pyval list \<Rightarrow> error + pyval" where
  "py_min [] = Inl (ValueError ''min() arg is an empty sequence'')"
| "py_min (x # xs) = min_loop x xs"

section \<open>BasicBuildInfo\<close>

text \<open>
  Modelled from the spec: \<open>semver.Version\<close> is a third-party class; the matcher reads
  its \<open>major\<close>, \<open>minor\<close> and \<open>patch\<close>, and versions compare lexicographically on them.
\<close>

record Version =
  major :: int
  minor :: int
  patch :: int

definition Version_lt :: "Version \<Rightarrow> Version \<Rightarrow> bool" where
  "Version_lt a b =
     (major a < major b \<or> (major a = major b \<and>
       (minor a < minor b \<or> (minor a = minor b \<and> patch a < patch b))))"

record BasicBuildInfo =
  version :: Version
  branch :: string
  build_hash :: string
  commit_time :: datetime

text \<open>
  The dataclass constructor of \<open>BasicBuildInfo\<close>: there is no \<open>__post_init__\<close>, the
  fields are stored as given.
\<close>

definition new_build :: "Version \<Rightarrow> string \<Rightarrow> string \<Rightarrow> datetime \<Rightarrow> BasicBuildInfo" where
  "new_build v br bh t = \<lparr>version = v, branch = br, build_hash = bh, commit_time = t\<rparr>"

text \<open>\<open>BasicBuildInfo.__lt__\<close>\<close>

definition BasicBuildInfo_lt :: "BasicBuildInfo \<Rightarrow> BasicBuildInfo \<Rightarrow> error + bool" where
  "BasicBuildInfo_lt self other =
     (if version self = version other
      then datetime_lt (commit_time self) (commit_time other)
      else Inr (Version_lt (version self) (version other)))"

text \<open>
  \<open>datetime.astimezone(utc)\<close>. A value whose \<open>tzinfo\<close> is \<open>timezone.utc\<close> itself is
  returned as it is. Any other value is moved by its utcoffset, \<open>source_offset\<close>: that of
  its \<open>tzinfo\<close>, and for a naive value (or one whose \<open>tzinfo\<close> answers \<open>None\<close>) the
  offset of the system's local time zone at its reading and fold. The local offset is
  the parameter \<open>local_offset\<close>; it is \<open>Inl\<close> where the lookup raises (ValueError within
  a day of the ends of the calendar, OverflowError or OSError where the platform's
  \<open>localtime\<close> fails). The result is at \<open>timezone.utc\<close>; a result outside the years 1 to
  9999 raises OverflowError.
\<close>

definition MAX_WALL :: int where
  "MAX_WALL = 3652059 * 86400000000"

definition source_offset :: "(int \<Rightarrow> bool \<Rightarrow> error + int) \<Rightarrow> datetime \<Rightarrow> error + int" where
  "source_offset local_offset d =
     (case utcoffset d of
        Some off \<Rightarrow> Inr off
      | None \<Rightarrow> local_offset (wall d) (fold d))"

definition astimezone_utc ::
  "(int \<Rightarrow> bool \<Rightarrow> error + int) \<Rightarrow> datetime \<Rightarrow> error + datetime" where
  "astimezone_utc local_offset d =
     (if tzinfo d = Some UTC then Inr d
      else case source_offset local_offset d of
             Inl e \<Rightarrow> Inl e
           | Inr off \<Rightarrow>
               (let w = wall d - off
                in if 0 \<le> w \<and> w < MAX_WALL
                   then Inr \<lparr>wall = w, tzinfo = Some UTC, fold = False\<rparr>
                   else Inl (OverflowError ''date value out of range'')))"

text \<open>
  The fields of \<open>modules.build_info.BuildInfo\<close> that \<open>from_buildinfo\<close> reads.
\<close>

record BuildInfo =
  full_semversion :: Version
  bi_branch :: string
  bi_build_hash :: "string option"
  bi_commit_time :: datetime

definition from_buildinfo ::
  "(int \<Rightarrow> bool \<Rightarrow> error + int) \<Rightarrow> BuildInfo \<Rightarrow> error + BasicBuildInfo" where
  "from_buildinfo local_offset buildinfo =
     (case astimezone_utc local_offset (bi_commit_time buildinfo) of
        Inl e \<Rightarrow> Inl e
      | Inr t \<Rightarrow> Inr \<lparr>version = full_semversion buildinfo,
                     branch = bi_branch buildinfo,
                     build_hash = (case bi_build_hash buildinfo of None \<Rightarrow> [] | Some h \<Rightarrow> h),
                     commit_time = t\<rparr>)"

section \<open>VersionSearchQuery\<close>

datatype int_or_str = IntV int | StrV string

datatype datetime_or_str = DtV datetime | TStrV string

record VersionSearchQuery =
  q_major :: int_or_str
  q_minor :: int_or_str
  q_patch :: int_or_str
  q_branch :: "string option"
  q_build_hash :: "string option"
  q_commit_time :: datetime_or_str

fun ios_val :: "int_or_str \<Rightarrow> pyval" where
  "ios_val (IntV n) = PInt n"
| "ios_val (StrV s) = PStr s"

fun opt_val :: "string option \<Rightarrow> pyval" where
  "opt_val None = PNone"
| "opt_val (Some s) = PStr s"

fun dos_val :: "datetime_or_str \<Rightarrow> pyval" where
  "dos_val (DtV d) = PDatetime d"
| "dos_val (TStrV s) = PStr s"

text \<open>\<open>VersionSearchQuery.__post_init__\<close>\<close>

fun check_positions :: "pyval list \<Rightarrow> error + unit" where
  "check_positions [] = Inr ()"
| "check_positions (PStr pos # rest) =
     (if pos \<notin> set [''^'', ''*'', ''-'']
      then Inl (ValueError (pos @ '' must be in [\"^\", \"*\", \"-\"]''))
      else check_positions rest)"
| "check_positions (_ # rest) = check_positions rest"

fun truthy :: "string option \<Rightarrow> bool" where
  "truthy None = False"
| "truthy (Some s) = (s \<noteq> [])"

definition post_init :: "VersionSearchQuery \<Rightarrow> error + unit" where
  "post_init self =
     (case check_positions [ios_val (q_major self), ios_val (q_minor self),
                            ios_val (q_patch self), dos_val (q_commit_time self)] of
        Inl e \<Rightarrow> Inl e
      | Inr _ \<Rightarrow>
          if truthy (q_build_hash self) \<and> q_build_hash self \<in> set [Some ''^'', Some ''-'']
          then Inl (ValueError ''build_hash cannot be temporally matched'')
          else if truthy (q_branch self) \<and> q_branch self \<in> set [Some ''^'', Some ''-'']
          then Inl (ValueError ''branch cannot be temporally matched'')
          else Inr ())"

text \<open>The dataclass constructor: the fields are stored, then \<open>__post_init__\<close> runs.\<close>

definition new_query ::
  "int_or_str \<Rightarrow> int_or_str \<Rightarrow> int_or_str \<Rightarrow> string option \<Rightarrow> string option \<Rightarrow>
   datetime_or_str \<Rightarrow> error + VersionSearchQuery" where
  "new_query ma mi pa br bh ct =
     (let self = \<lparr>q_major = ma, q_minor = mi, q_patch = pa, q_branch = br,
                  q_build_hash = bh, q_commit_time = ct\<rparr>
      in case post_init self of Inl e \<Rightarrow> Inl e | Inr _ \<Rightarrow> Inr self)"

text \<open>\<open>VersionSearchQuery.default\<close>\<close>

definition default_query :: "error + VersionSearchQuery" where
  "default_query = new_query (StrV ''^'') (StrV ''^'') (StrV ''^'') None None (TStrV ''^'')"

text \<open>\<open>==\<close> on queries: the dataclass compares field by field.\<close>

definition query_eq :: "VersionSearchQuery \<Rightarrow> VersionSearchQuery \<Rightarrow> bool" where
  "query_eq a b =
     (py_eq (ios_val (q_major a)) (ios_val (q_major b)) \<and>
      py_eq (ios_val (q_minor a)) (ios_val (q_minor b)) \<and>
      py_eq (ios_val (q_patch a)) (ios_val (q_patch b)) \<and>
      py_eq (opt_val (q_branch a)) (opt_val (q_branch b)) \<and>
      py_eq (opt_val (q_build_hash a)) (opt_val (q_build_hash b)) \<and>
      py_eq (dos_val (q_commit_time a)) (dos_val (q_commit_time b)))"

section \<open>BInfoMatcher.match\<close>

datatype place = Build_hash | Major | Minor | Patch | Branch | Commit_time

text \<open>\<open>attrgetter(place)\<close> on the query and on a build.\<close>

fun getter_q :: "place \<Rightarrow> VersionSearchQuery \<Rightarrow> pyval" where
  "getter_q Build_hash s = opt_val (q_build_hash s)"
| "getter_q Major s = ios_val (q_major s)"
| "getter_q Minor s = ios_val (q_minor s)"
| "getter_q Patch s = ios_val (q_patch s)"
| "getter_q Branch s = opt_val (q_branch s)"
| "getter_q Commit_time s = dos_val (q_commit_time s)"

fun getter_v :: "place \<Rightarrow> BasicBuildInfo \<Rightarrow> pyval" where
  "getter_v Build_hash v = PStr (build_hash v)"
| "getter_v Major v = PInt (major (version v))"
| "getter_v Minor v = PInt (minor (version v))"
| "getter_v Patch v = PInt (patch (version v))"
| "getter_v Branch v = PStr (branch v)"
| "getter_v Commit_time v = PDatetime (commit_time v)"

text \<open>
  One pass of the loop body up to the emptiness test: \<open>None\<close> is the \<open>continue\<close> of the
  wildcard branch, \<open>Some versions'\<close> the filtered list.
\<close>

definition narrow ::
  "place \<Rightarrow> VersionSearchQuery \<Rightarrow> BasicBuildInfo list \<Rightarrow> error + BasicBuildInfo list option" where
  "narrow place s versions =
     (let p = getter_q place s in
      if py_eq p (PStr ''^'') then
        (case py_max (map (getter_v place) versions) of
           Inl e \<Rightarrow> Inl e
         | Inr max_p \<Rightarrow> Inr (Some (filter (\<lambda>v. py_eq (getter_v place v) max_p) versions)))
      else if py_eq p (PStr ''*'') \<or> p = PNone then Inr None
      else if py_eq p (PStr ''-'') then
        (case py_min (map (getter_v place) versions) of
           Inl e \<Rightarrow> Inl e
         | Inr min_p \<Rightarrow> Inr (Some (filter (\<lambda>v. py_eq (getter_v place v) min_p) versions)))
      else Inr (Some (filter (\<lambda>v. py_eq (getter_v place v) p) versions)))"

fun match_loop ::
  "place list \<Rightarrow> VersionSearchQuery \<Rightarrow> BasicBuildInfo list \<Rightarrow> error + BasicBuildInfo list" where
  "match_loop [] s versions = Inr versions"
| "match_loop (place # places) s versions =
     (case narrow place s versions of
        Inl e \<Rightarrow> Inl e
      | Inr None \<Rightarrow> match_loop places s versions
      | Inr (Some versions') \<Rightarrow>
          if versions' = [] then Inr [] else match_loop places s versions')"

definition PLACES :: "place list" where
  "PLACES = [Build_hash, Major, Minor, Patch, Branch, Commit_time]"

definition match :: "BasicBuildInfo list \<Rightarrow> VersionSearchQuery \<Rightarrow> error + BasicBuildInfo list" where
  "match versions s = match_loop PLACES s versions"

section \<open>The query grammar\<close>

text \<open>
  The character classes of \<open>re\<close> and \<open>str.isnumeric\<close> on the code points 0 to 255:
  \<open>\d\<close> (decimal digits), \<open>\w\<close> (alphanumerics and the underscore), \<open>\s\<close> (white space)
  and the numeric characters.
\<close>

definition py_ord :: "char \<Rightarrow> nat" where
  "py_ord c = of_char c"

definition is_digit :: "char \<Rightarrow> bool" where
  "is_digit c = (48 \<le> py_ord c \<and> py_ord c \<le> 57)"

definition is_word :: "char \<Rightarrow> bool" where
  "is_word c =
     (let n = py_ord c in
      (48 \<le> n \<and> n \<le> 57) \<or> (65 \<le> n \<and> n \<le> 90) \<or> n = 95 \<or> (97 \<le> n \<and> n \<le> 122) \<or>
      n = 170 \<or> n = 178 \<or> n = 179 \<or> n = 181 \<or> n = 185 \<or> n = 186 \<or>
      (188 \<le> n \<and> n \<le> 190) \<or> (192 \<le> n \<and> n \<le> 214) \<or> (216 \<le> n \<and> n \<le> 246) \<or>
      248 \<le> n)"

definition is_space :: "char \<Rightarrow> bool" where
  "is_space c =
     (let n = py_ord c in (9 \<le> n \<and> n \<le> 13) \<or> (28 \<le> n \<and> n \<le> 32) \<or> n = 133 \<or> n = 160)"

definition is_numeric_char :: "char \<Rightarrow> bool" where
  "is_numeric_char c =
     (let n = py_ord c in
      (48 \<le> n \<and> n \<le> 57) \<or> n = 178 \<or> n = 179 \<or> n = 185 \<or> (188 \<le> n \<and> n \<le> 190))"

text \<open>
  Regular expressions, as far as \<open>VERSION_SEARCH_REGEX\<close> uses them: \<open>^\<close>, \<open>$\<close>, a
  character set, a greedy \<open>+\<close> on a character set, concatenation, alternation, a greedy
  \<open>?\<close> and a numbered capturing group. A character set lists literal characters and
  classes, or excludes them (\<open>[^...]\<close>).
\<close>

datatype item = Lit char | Digit | Word | Space

fun item_has :: "item \<Rightarrow> char \<Rightarrow> bool" where
  "item_has (Lit x) c = (c = x)"
| "item_has Digit c = is_digit c"
| "item_has Word c = is_word c"
| "item_has Space c = is_space c"

datatype charset = In "item list" | NotIn "item list"

fun in_set :: "charset \<Rightarrow> char \<Rightarrow> bool" where
  "in_set (In items) c = list_ex (\<lambda>i. item_has i c) items"
| "in_set (NotIn items) c = (\<not> list_ex (\<lambda>i. item_has i c) items)"

datatype regex =
    Bol
  | Eol
  | Chr charset
  | Plus charset
  | Seq regex regex
  | Alt regex regex
  | Opt regex
  | Group nat regex

text \<open>
  A state of the backtracking matcher: the number of characters consumed, the rest of the
  input and the groups captured so far. \<open>matches r st\<close> lists the states in which \<open>r\<close>
  can end when started in \<open>st\<close>, in the order in which backtracking tries them: the longer
  repetition first, the left alternative first, the optional part before its omission.
  \<open>$\<close> holds at the end of the input and before a newline that ends it.
\<close>

type_synonym mstate = "nat \<times> string \<times> (nat \<rightharpoonup> string)"

fun plus_matches :: "charset \<Rightarrow> mstate \<Rightarrow> mstate list" where
  "plus_matches cs (n, [], g) = []"
| "plus_matches cs (n, c # r, g) =
     (if in_set cs c then plus_matches cs (Suc n, r, g) @ [(Suc n, r, g)] else [])"

fun matches :: "regex \<Rightarrow> mstate \<Rightarrow> mstate list" where
  "matches Bol (n, s, g) = (if n = 0 then [(n, s, g)] else [])"
| "matches Eol (n, s, g) = (if s = [] \<or> s = [CHR 0x0A] then [(n, s, g)] else [])"
| "matches (Chr cs) (n, s, g) =
     (case s of [] \<Rightarrow> [] | c # r \<Rightarrow> if in_set cs c then [(Suc n, r, g)] else [])"
| "matches (Plus cs) st = plus_matches cs st"
| "matches (Seq a b) st = concat (map (matches b) (matches a st))"
| "matches (Alt a b) st = matches a st @ matches b st"
| "matches (Opt a) st = matches a st @ [st]"
| "matches (Group k a) (n, s, g) =
     map (\<lambda>(n', s', g'). (n', s', g'(k \<mapsto> take (n' - n) s))) (matches a (n, s, g))"

text \<open>\<open>Pattern.match\<close>: the groups of the first way to match, \<open>None\<close> when there is none.\<close>

definition re_match :: "regex \<Rightarrow> string \<Rightarrow> (nat \<rightharpoonup> string) option" where
  "re_match r s = (case matches r (0, s, Map.empty) of [] \<Rightarrow> None | (n, rest, g) # _ \<Rightarrow> Some g)"

text \<open>\<open>VERSION_SEARCH_REGEX\<close>, part by part as the source lays it out.\<close>

definition MODE :: charset where
  "MODE = In [Lit CHR ''^'', Lit CHR ''-'', Lit CHR ''*'']"

definition NUM :: regex where
  "NUM = Alt (Chr MODE) (Plus (In [Digit]))"

definition DOT :: regex where
  "DOT = Chr (In [Lit CHR ''.''])"

definition BRANCH_CHARS :: charset where
  "BRANCH_CHARS = NotIn [Lit CHR ''@'', Space, Lit CHR ''+'']"

definition BRANCH_PART :: regex where
  "BRANCH_PART = Opt (Seq (Chr (In [Lit CHR ''-''])) (Group 4 (Plus BRANCH_CHARS)))"

definition HASH_CHARS :: charset where
  "HASH_CHARS = In [Digit, Word]"

definition HASH_PART :: regex where
  "HASH_PART = Opt (Seq (Chr (In [Lit CHR ''+''])) (Group 5 (Plus HASH_CHARS)))"

definition TIME_CHARS :: charset where
  "TIME_CHARS = In [Digit, Lit CHR ''T'', Lit CHR ''+'', Lit CHR '':'', Lit CHR ''Z'',
                    Lit CHR '' '', Lit CHR ''^'', Lit CHR ''-'']"

definition TIME_PART :: regex where
  "TIME_PART = Opt (Seq (Chr (In [Lit CHR ''@''])) (Group 6 (Alt (Chr MODE) (Plus TIME_CHARS))))"

definition VERSION_SEARCH_REGEX :: regex where
  "VERSION_SEARCH_REGEX =
     Seq Bol
    (Seq (Group 1 NUM) (Seq DOT (Seq (Group 2 NUM) (Seq DOT (Seq (Group 3 NUM)
    (Seq BRANCH_PART
    (Seq HASH_PART
    (Seq TIME_PART
     Eol))))))))"

text \<open>
  Integers and their decimal strings. The interpreter limits the number of digits of an
  integer that is converted from or to a string (\<open>sys.get_int_max_str_digits()\<close>, 4300
  by default): beyond it \<open>int\<close> and \<open>str\<close> raise ValueError.
\<close>

definition MAX_STR_DIGITS :: nat where
  "MAX_STR_DIGITS = 4300"

definition digit_char :: "nat \<Rightarrow> char" where
  "digit_char d = char_of (48 + d)"

fun str_nat :: "nat \<Rightarrow> string" where
  "str_nat n = (if n < 10 then [digit_char n] else str_nat (n div 10) @ [digit_char (n mod 10)])"

declare str_nat.simps [simp del]

definition str_int :: "int \<Rightarrow> error + string" where
  "str_int i =
     (let digits = str_nat (nat \<bar>i\<bar>) in
      if length digits > MAX_STR_DIGITS
      then Inl (ValueError (''Exceeds the limit (4300 digits) for integer string conversion; ''
                            @ ''use sys.set_int_max_str_digits() to increase the limit''))
      else Inr (if i < 0 then CHR ''-'' # digits else digits))"

text \<open>\<open>str.isnumeric\<close>, and \<open>int\<close> on a string of numeric characters.\<close>

definition isnumeric :: "string \<Rightarrow> bool" where
  "isnumeric s = (s \<noteq> [] \<and> list_all is_numeric_char s)"

definition py_int :: "string \<Rightarrow> error + int" where
  "py_int s =
     (if s \<noteq> [] \<and> list_all is_digit s
      then if length s > MAX_STR_DIGITS
           then Inl (ValueError (''Exceeds the limit (4300 digits) for integer string conversion: ''
                                 @ ''value has '' @ str_nat (length s) @ '' digits; ''
                                 @ ''use sys.set_int_max_str_digits() to increase the limit''))
           else Inr (foldl (\<lambda>a c. 10 * a + (int (py_ord c) - 48)) 0 s)
      else Inl (ValueError (''invalid literal for int() with base 10: '' @ [CHR 0x27] @ s @ [CHR 0x27])))"

fun to_int_if_numeric :: "string option \<Rightarrow> error + int_or_str" where
  "to_int_if_numeric None =
     Inl (AttributeError ([CHR 0x27] @ ''NoneType'' @ [CHR 0x27] @ '' object has no attribute ''
                          @ [CHR 0x27] @ ''isnumeric'' @ [CHR 0x27]))"
| "to_int_if_numeric (Some t) =
     (if isnumeric t
      then (case py_int t of Inl e \<Rightarrow> Inl e | Inr n \<Rightarrow> Inr (IntV n))
      else Inr (StrV t))"

text \<open>
  \<open>_parse\<close>. \<open>datetime.fromisoformat\<close> is the parameter \<open>fromisoformat\<close>, \<open>None\<close> where
  it raises ValueError (which \<open>_parse\<close> suppresses, keeping the token).
\<close>

type_synonym query_tuple =
  "int_or_str \<times> int_or_str \<times> int_or_str \<times> string option \<times> string option \<times> datetime_or_str"

definition parse_tuple :: "(string \<Rightarrow> datetime option) \<Rightarrow> string \<Rightarrow> error + query_tuple" where
  "parse_tuple fromisoformat s =
     (case re_match VERSION_SEARCH_REGEX s of
        None \<Rightarrow> Inl (ValueError (''Invalid version search query: '' @ s))
      | Some m \<Rightarrow>
          (let commit_time = (case m 6 of None \<Rightarrow> ''^'' | Some t \<Rightarrow> t) in
           case to_int_if_numeric (m 1) of Inl e \<Rightarrow> Inl e | Inr ma \<Rightarrow>
           (case to_int_if_numeric (m 2) of Inl e \<Rightarrow> Inl e | Inr mi \<Rightarrow>
           (case to_int_if_numeric (m 3) of Inl e \<Rightarrow> Inl e | Inr pa \<Rightarrow>
              Inr (ma, mi, pa, m 4, m 5,
                   if commit_time \<notin> set [''^'', ''*'', ''-'']
                   then (case fromisoformat commit_time of
                           Some d \<Rightarrow> DtV d
                         | None \<Rightarrow> TStrV commit_time)
                   else TStrV commit_time)))))"

text \<open>\<open>VersionSearchQuery.parse\<close>\<close>

definition parse :: "(string \<Rightarrow> datetime option) \<Rightarrow> string \<Rightarrow> error + VersionSearchQuery" where
  "parse fromisoformat s =
     (case parse_tuple fromisoformat s of
        Inl e \<Rightarrow> Inl e
      | Inr (ma, mi, pa, br, bh, ct) \<Rightarrow> new_query ma mi pa br bh ct)"

text \<open>
  \<open>VersionSearchQuery.__str__\<close>. An integer field is formatted in decimal, a string
  field as it is; branch and build hash are appended when they are neither \<open>None\<close> nor
  empty; the string of a datetime is the parameter \<open>datetime_str\<close>.
\<close>

fun format_ios :: "int_or_str \<Rightarrow> error + string" where
  "format_ios (IntV n) = str_int n"
| "format_ios (StrV s) = Inr s"

fun format_dos :: "(datetime \<Rightarrow> string) \<Rightarrow> datetime_or_str \<Rightarrow> string" where
  "format_dos datetime_str (DtV d) = datetime_str d"
| "format_dos datetime_str (TStrV s) = s"

fun truthy_dos :: "datetime_or_str \<Rightarrow> bool" where
  "truthy_dos (DtV d) = True"
| "truthy_dos (TStrV s) = (s \<noteq> [])"

fun suffix_part :: "char \<Rightarrow> string option \<Rightarrow> string" where
  "suffix_part c None = []"
| "suffix_part c (Some s) = (if s \<noteq> [] then c # s else [])"

definition to_string :: "(datetime \<Rightarrow> string) \<Rightarrow> VersionSearchQuery \<Rightarrow> error + string" where
  "to_string datetime_str self =
     (case format_ios (q_major self) of Inl e \<Rightarrow> Inl e | Inr ma \<Rightarrow>
     (case format_ios (q_minor self) of Inl e \<Rightarrow> Inl e | Inr mi \<Rightarrow>
     (case format_ios (q_patch self) of Inl e \<Rightarrow> Inl e | Inr pa \<Rightarrow>
        Inr (ma @ ''.'' @ mi @ ''.'' @ pa
             @ suffix_part CHR ''-'' (q_branch self)
             @ suffix_part CHR ''+'' (q_build_hash self)
             @ (if truthy_dos (q_commit_time self)
                then ''@'' @ format_dos datetime_str (q_commit_time self) else [])))))"

text \<open>\<open>VersionSearchQuery.parse(str(q))\<close>\<close>

definition reparse ::
  "(string \<Rightarrow> datetime option) \<Rightarrow> (datetime \<Rightarrow> string) \<Rightarrow> VersionSearchQuery \<Rightarrow>
   error + VersionSearchQuery" where
  "reparse fromisoformat datetime_str q =
     (case to_string datetime_str q of Inl e \<Rightarrow> Inl e | Inr text \<Rightarrow> parse fromisoformat text)"

section \<open>The specification in the terms of the model\<close>

subsection \<open>The matching algorithm as the specification words it\<close>

text \<open>
  The order in which the fields of builds are compared: integers by value, strings
  lexicographically, aware datetimes by their UTC instants and naive ones by their
  readings.
\<close>

fun val_le :: "pyval \<Rightarrow> pyval \<Rightarrow> bool" where
  "val_le (PInt a) (PInt b) = (a \<le> b)"
| "val_le (PStr a) (PStr b) = (a \<le> b)"
| "val_le (PDatetime a) (PDatetime b) = (aware a = aware b \<and> utc_instant a \<le> utc_instant b)"
| "val_le _ _ = False"

text \<open>
  A datetime in a time zone of fixed offset: \<open>timezone.utc\<close>, to which \<open>from_buildinfo\<close>
  normalizes, or another \<open>datetime.timezone\<close>. The commit times of a catalog are all
  in time zones of fixed offset, or all naive.
\<close>

definition fixed_offset :: "datetime \<Rightarrow> bool" where
  "fixed_offset d =
     (case tzinfo d of
        Some UTC \<Rightarrow> True
      | Some (Timezone off) \<Rightarrow> True
      | _ \<Rightarrow> False)"

definition comparable_times :: "BasicBuildInfo list \<Rightarrow> bool" where
  "comparable_times versions =
     (list_all (\<lambda>v. fixed_offset (commit_time v)) versions \<or>
      list_all (\<lambda>v. tzinfo (commit_time v) = None) versions)"

text \<open>
  The field of \<open>v\<close> is the maximum (resp. minimum) of that field over the candidates
  \<open>cur\<close>: no candidate has a larger (resp. smaller) one.
\<close>

definition is_maximum :: "place \<Rightarrow> BasicBuildInfo list \<Rightarrow> BasicBuildInfo \<Rightarrow> bool" where
  "is_maximum place cur v = list_all (\<lambda>w. val_le (getter_v place w) (getter_v place v)) cur"

definition is_minimum :: "place \<Rightarrow> BasicBuildInfo list \<Rightarrow> BasicBuildInfo \<Rightarrow> bool" where
  "is_minimum place cur v = list_all (\<lambda>w. val_le (getter_v place v) (getter_v place w)) cur"

text \<open>
  Steps 1 to 5 of the algorithm of the specification for one field, and the six
  fields in its priority order. An empty candidate list stays empty (step 6).
\<close>

definition spec_step :: "place \<Rightarrow> VersionSearchQuery \<Rightarrow> BasicBuildInfo list \<Rightarrow> BasicBuildInfo list" where
  "spec_step place q cur =
     (let p = getter_q place q in
      if p = PStr ''*'' \<or> p = PNone then cur
      else if p = PStr ''^'' then filter (is_maximum place cur) cur
      else if p = PStr ''-'' then filter (is_minimum place cur) cur
      else filter (\<lambda>v. py_eq (getter_v place v) p) cur)"


subsection \<open>The textual form of a query\<close>

text \<open>
  The textual form of a query, as the specification gives it:
  \<open><major>.<minor>.<patch>[-<branch>][+<build_hash>][@<commit_time>]\<close>, where a version
  component is a mode symbol or a run of digits, a branch is a run of characters other
  than \<open>@\<close>, \<open>+\<close> and white space, a build hash is a run of word characters, and a commit
  time is a mode symbol or a run of the characters of timestamps. The form is anchored
  at both ends: nothing precedes the major component and nothing follows the last part.
\<close>

definition valid_num :: "string \<Rightarrow> bool" where
  "valid_num t = (t \<in> set [''^'', ''*'', ''-''] \<or> (t \<noteq> [] \<and> list_all is_digit t))"

definition branch_token :: "string \<Rightarrow> bool" where
  "branch_token b = (b \<noteq> [] \<and> list_all (in_set BRANCH_CHARS) b)"

definition hash_token :: "string \<Rightarrow> bool" where
  "hash_token h = (h \<noteq> [] \<and> list_all (in_set HASH_CHARS) h)"

definition time_token :: "string \<Rightarrow> bool" where
  "time_token t = (t \<in> set [''^'', ''*'', ''-''] \<or> (t \<noteq> [] \<and> list_all (in_set TIME_CHARS) t))"

definition optional_part :: "char \<Rightarrow> (string \<Rightarrow> bool) \<Rightarrow> string \<Rightarrow> bool" where
  "optional_part c token p = (p = [] \<or> (p \<noteq> [] \<and> hd p = c \<and> token (tl p)))"

definition query_text :: "string \<Rightarrow> bool" where
  "query_text s =
     (\<exists>ma mi pa br bh ct.
        s = ma @ ''.'' @ mi @ ''.'' @ pa @ br @ bh @ ct \<and>
        valid_num ma \<and> valid_num mi \<and> valid_num pa \<and>
        optional_part CHR ''-'' branch_token br \<and>
        optional_part CHR ''+'' hash_token bh \<and>
        optional_part CHR ''@'' time_token ct)"

text \<open>
  The queries whose fields fit the tokens of the grammar: a version component is a mode
  symbol or a non-negative integer (of at most 4300 digits); a branch, when present, is a
  branch token other than \<open>^\<close> and \<open>-\<close>; a build hash, when present, is a build-hash
  token; a commit time is a mode symbol, or a datetime whose string is a commit-time
  token that \<open>fromisoformat\<close> reads back as that datetime.
\<close>

definition grammar_num :: "int_or_str \<Rightarrow> bool" where
  "grammar_num v =
     (case v of
        IntV n \<Rightarrow> 0 \<le> n \<and> length (str_nat (nat n)) \<le> MAX_STR_DIGITS
      | StrV s \<Rightarrow> s \<in> set [''^'', ''*'', ''-''])"

definition grammar_branch :: "string option \<Rightarrow> bool" where
  "grammar_branch b =
     (case b of
        None \<Rightarrow> True
      | Some x \<Rightarrow> branch_token x \<and> x \<notin> set [''^'', ''-''])"

definition grammar_hash :: "string option \<Rightarrow> bool" where
  "grammar_hash h =
     (case h of None \<Rightarrow> True | Some x \<Rightarrow> hash_token x)"

definition grammar_time ::
  "(string \<Rightarrow> datetime option) \<Rightarrow> (datetime \<Rightarrow> string) \<Rightarrow> datetime_or_str \<Rightarrow> bool" where
  "grammar_time fromisoformat datetime_str ct =
     (case ct of
        TStrV s \<Rightarrow> s \<in> set [''^'', ''*'', ''-'']
      | DtV d \<Rightarrow>
          (let t = datetime_str d in
           time_token t \<and> t \<notin> set [''^'', ''*'', ''-''] \<and> fromisoformat t = Some d))"

definition in_grammar ::
  "(string \<Rightarrow> datetime option) \<Rightarrow> (datetime \<Rightarrow> string) \<Rightarrow> VersionSearchQuery \<Rightarrow> bool" where
  "in_grammar fromisoformat datetime_str q =
     (grammar_num (q_major q) \<and> grammar_num (q_minor q) \<and> grammar_num (q_patch q) \<and>
      grammar_branch (q_branch q) \<and> grammar_hash (q_build_hash q) \<and>
      grammar_time fromisoformat datetime_str (q_commit_time q))"

text \<open>
  The version groups of a match are within the digit limit of \<open>int\<close>.
\<close>

definition digit_limit_ok :: "(nat \<rightharpoonup> string) \<Rightarrow> bool" where
  "digit_limit_ok m =
     list_all (\<lambda>k. case m k of None \<Rightarrow> True | Some t \<Rightarrow> length t \<le> MAX_STR_DIGITS) [1, 2, 3]"

section \<open>Notions for the proofs\<close>


text \<open>
  The groups a regular expression can set, the first state in which it can end, and
  the setting of a group to the text of an optional field.
\<close>

fun groups_of :: "regex \<Rightarrow> nat set" where
  "groups_of (Seq a b) = groups_of a \<union> groups_of b"
| "groups_of (Alt a b) = groups_of a \<union> groups_of b"
| "groups_of (Opt a) = groups_of a"
| "groups_of (Group k a) = insert k (groups_of a)"
| "groups_of _ = {}"

definition first_match :: "regex \<Rightarrow> mstate \<Rightarrow> mstate option" where
  "first_match r st = (case matches r st of [] \<Rightarrow> None | x # _ \<Rightarrow> Some x)"

definition set_opt :: "nat \<Rightarrow> string option \<Rightarrow> (nat \<rightharpoonup> string) \<Rightarrow> (nat \<rightharpoonup> string)" where
  "set_opt k v g = (case v of None \<Rightarrow> g | Some x \<Rightarrow> g(k \<mapsto> x))"

text \<open>
  The language of a regular expression, the anchors aside, and the strings that
  \<open>VERSION_SEARCH_REGEX\<close> matches: those of its language, and those followed by one
  newline, before which \<open>$\<close> holds. \<open>anchor_free\<close> and \<open>tail_anchored\<close> describe where
  the anchors of an expression stand.
\<close>

fun lang :: "regex \<Rightarrow> string set" where
  "lang Bol = {[]}"
| "lang Eol = {[]}"
| "lang (Chr cs) = {[c] | c. in_set cs c}"
| "lang (Plus cs) = {w. w \<noteq> [] \<and> list_all (in_set cs) w}"
| "lang (Seq a b) = {u @ v | u v. u \<in> lang a \<and> v \<in> lang b}"
| "lang (Alt a b) = lang a \<union> lang b"
| "lang (Opt a) = insert [] (lang a)"
| "lang (Group k a) = lang a"

definition matches_grammar :: "string \<Rightarrow> bool" where
  "matches_grammar s =
     (\<exists>w e. s = w @ e \<and> w \<in> lang VERSION_SEARCH_REGEX \<and> (e = [] \<or> e = [CHR 0x0A]))"

fun anchor_free :: "regex \<Rightarrow> bool" where
  "anchor_free Bol = False"
| "anchor_free Eol = False"
| "anchor_free (Seq a b) = (anchor_free a \<and> anchor_free b)"
| "anchor_free (Alt a b) = (anchor_free a \<and> anchor_free b)"
| "anchor_free (Opt a) = anchor_free a"
| "anchor_free (Group k a) = anchor_free a"
| "anchor_free _ = True"

fun tail_anchored :: "regex \<Rightarrow> bool" where
  "tail_anchored Eol = True"
| "tail_anchored (Seq a b) = (anchor_free a \<and> tail_anchored b)"
| "tail_anchored _ = False"

section \<open>Examples\<close>

text \<open>
  Builds of the catalog of \<open>test_version_matcher.py\<close>; the commit times are midnight
  UTC of 2020-05-04, 2024-07-16, 2024-07-30, 2024-07-28 and 2024-07-20. The first query
  of \<open>test_binfo_matcher\<close>.
\<close>

definition utc_datetime :: "int \<Rightarrow> datetime" where
  "utc_datetime w = \<lparr>wall = w, tzinfo = Some UTC, fold = False\<rparr>"

definition build :: "int \<Rightarrow> int \<Rightarrow> int \<Rightarrow> string \<Rightarrow> string \<Rightarrow> datetime \<Rightarrow> BasicBuildInfo" where
  "build ma mi pa br bh t =
     \<lparr>version = \<lparr>major = ma, minor = mi, patch = pa\<rparr>, branch = br, build_hash = bh, commit_time = t\<rparr>"

definition builds :: "BasicBuildInfo list" where
  "builds =
     [build 1 2 3 ''stable'' [] (utc_datetime 63724147200000000),
      build 3 6 14 ''lts'' [] (utc_datetime 63856684800000000),
      build 4 3 0 ''daily'' [] (utc_datetime 63857894400000000),
      build 4 3 0 ''daily'' [] (utc_datetime 63857721600000000),
      build 4 3 1 ''daily'' [] (utc_datetime 63857030400000000)]"

definition latest_minor_query :: VersionSearchQuery where
  "latest_minor_query =
     \<lparr>q_major = StrV ''^'', q_minor = StrV ''^'', q_patch = StrV ''*'', q_branch = None,
      q_build_hash = None, q_commit_time = TStrV ''*''\<rparr>"

text \<open>
  A \<open>BuildInfo\<close> of version 4.3.0 with a given commit time.
\<close>

definition sample_buildinfo :: "datetime \<Rightarrow> BuildInfo" where
  "sample_buildinfo t =
     \<lparr>full_semversion = \<lparr>major = 4, minor = 3, patch = 0\<rparr>, bi_branch = ''daily'',
      bi_build_hash = Some ''cb886aba06d5'', bi_commit_time = t\<rparr>"

text \<open>
  Stand-ins for the library: a \<open>fromisoformat\<close> that rejects its argument, as Python's
  rejects \<open>TT\<close>, and the local offset of a system whose time zone is UTC, where the
  lookup raises within a day of the ends of the calendar.
\<close>

definition no_datetime :: "string \<Rightarrow> datetime option" where
  "no_datetime s = None"

definition utc_local_offset :: "int \<Rightarrow> bool \<Rightarrow> error + int" where
  "utc_local_offset w f =
     (if \<not> f \<and> w < 86400000000 then Inl (ValueError ''year 0 is out of range'')
      else if f \<and> MAX_WALL - 86400000000 \<le> w then Inl (ValueError ''year 10000 is out of range'')
      else Inr 0)"

text \<open>
  Datetimes: a naive one, and one in a \<open>datetime.timezone\<close> of the given offset.
\<close>

definition naive_datetime :: "int \<Rightarrow> datetime" where
  "naive_datetime w = \<lparr>wall = w, tzinfo = None, fold = False\<rparr>"

definition offset_datetime :: "int \<Rightarrow> int \<Rightarrow> datetime" where
  "offset_datetime off w = \<lparr>wall = w, tzinfo = Some (Timezone off), fold = False\<rparr>"







text \<open>
  Stand-ins for \<open>str\<close> and \<open>fromisoformat\<close> on the commit time of the last query of
  \<open>test_vsq_serialization\<close>, 2020-05-04 00:00 UTC, and a query at that commit time.
\<close>

definition sample_datetime_str :: "datetime \<Rightarrow> string" where
  "sample_datetime_str d = ''2020-05-04 00:00:00+00:00''"

definition sample_fromisoformat :: "string \<Rightarrow> datetime option" where
  "sample_fromisoformat s =
     (if s = ''2020-05-04 00:00:00+00:00'' then Some (utc_datetime 63724147200000000) else None)"

definition stable_at_query :: VersionSearchQuery where
  "stable_at_query =
     \<lparr>q_major = StrV ''^'', q_minor = IntV 12, q_patch = StrV ''*'', q_branch = Some ''stable'',
      q_build_hash = Some ''cb886aba06d5'', q_commit_time = DtV (utc_datetime 63724147200000000)\<rparr>"

text \<open>
  Queries for a version \<open>ma.2.3\<close>, and the string of the naive datetime
  2020-05-04 01:02:03.000005.
\<close>

definition version_query ::
  "int \<Rightarrow> string option \<Rightarrow> string option \<Rightarrow> datetime_or_str \<Rightarrow> VersionSearchQuery" where
  "version_query ma br bh ct =
     \<lparr>q_major = IntV ma, q_minor = IntV 2, q_patch = IntV 3, q_branch = br,
      q_build_hash = bh, q_commit_time = ct\<rparr>"

definition micro_datetime_str :: "datetime \<Rightarrow> string" where
  "micro_datetime_str d = ''2020-05-04 01:02:03.000005''"

section \<open>Properties of the matcher\<close>

subsection \<open>Extremum and narrowing\<close>





















lemma py_eq_PStr [simp]: "py_eq p (PStr x) \<longleftrightarrow> p = PStr x"
  by (cases p) auto






lemma spec_step_Nil [simp]: "spec_step place s [] = []"
  by (simp add: spec_step_def Let_def)


lemma foldl_spec_step_Nil [simp]: "foldl (\<lambda>c pl. spec_step pl s c) [] places = []"
  by (induction places) simp_all








subsection \<open>The empty catalog\<close>

text \<open>
  Claim C3. On the empty catalog the default query does not return the empty sequence:
  \<open>max\<close> of the empty iterable raises ValueError.
\<close>

theorem match_empty_catalog_raises:
  "default_query =
     Inr \<lparr>q_major = StrV ''^'', q_minor = StrV ''^'', q_patch = StrV ''^'', q_branch = None,
          q_build_hash = None, q_commit_time = TStrV ''^''\<rparr> \<and>
   match [] \<lparr>q_major = StrV ''^'', q_minor = StrV ''^'', q_patch = StrV ''^'', q_branch = None,
          q_build_hash = None, q_commit_time = TStrV ''^''\<rparr> =
     Inl (ValueError ''max() arg is an empty sequence'')"
  by (simp add: default_query_def new_query_def post_init_def match_def PLACES_def narrow_def)

subsection \<open>Empty candidates\<close>

lemma match_loop_empty_stops:
  assumes "match_loop pre s versions = Inr cur" "narrow place s cur = Inr (Some [])"
  shows "match_loop (pre @ place # post) s versions = Inr []"
  using assms
  by (induction pre arbitrary: versions) (auto split: sum.splits option.splits if_splits)

lemma narrow_literal_absent:
  assumes "q_build_hash s = Some h" "h \<notin> {''^'', ''*'', ''-''}"
          "\<forall>v \<in> set versions. build_hash v \<noteq> h"
  shows "narrow Build_hash s versions = Inr (Some [])"
  using assms by (auto simp: narrow_def filter_empty_conv)

text \<open>
  Claim C5. When the filter of a field leaves no candidate, \<open>match\<close> returns the empty
  sequence whatever fields remain; in particular a literal build_hash that no build of
  the catalog carries gives the empty result whatever the other fields are.
\<close>

theorem empty_short_circuit:
  "(match_loop pre s versions = Inr cur \<and> narrow place s cur = Inr (Some [])
      \<longrightarrow> match_loop (pre @ place # post) s versions = Inr []) \<and>
   (q_build_hash s = Some h \<and> h \<notin> {''^'', ''*'', ''-''} \<and>
      (\<forall>v \<in> set versions. build_hash v \<noteq> h)
      \<longrightarrow> match versions s = Inr [])"
  using match_loop_empty_stops [of pre s versions cur place post]
        narrow_literal_absent [of s h versions]
  by (auto simp: match_def PLACES_def)

text \<open>A build hash that no build of the test catalog carries.\<close>

theorem empty_short_circuit_witness:
  "match_loop [] (latest_minor_query\<lparr>q_build_hash := Some ''cb886aba06d5''\<rparr>) builds = Inr builds \<and>
   narrow Build_hash (latest_minor_query\<lparr>q_build_hash := Some ''cb886aba06d5''\<rparr>) builds = Inr (Some []) \<and>
   match_loop ([] @ Build_hash # [Major, Minor, Patch, Branch, Commit_time])
     (latest_minor_query\<lparr>q_build_hash := Some ''cb886aba06d5''\<rparr>) builds = Inr [] \<and>
   q_build_hash (latest_minor_query\<lparr>q_build_hash := Some ''cb886aba06d5''\<rparr>) = Some ''cb886aba06d5'' \<and>
   ''cb886aba06d5'' \<notin> {''^'', ''*'', ''-''} \<and>
   list_all (\<lambda>v. build_hash v \<noteq> ''cb886aba06d5'') builds \<and>
   match builds (latest_minor_query\<lparr>q_build_hash := Some ''cb886aba06d5''\<rparr>) = Inr []"
proof -
  let ?s = "latest_minor_query\<lparr>q_build_hash := Some ''cb886aba06d5''\<rparr>"
  have a: "match_loop [] ?s builds = Inr builds" by simp
  have c: "\<forall>v \<in> set builds. build_hash v \<noteq> ''cb886aba06d5''"
    by (simp add: builds_def build_def)
  have b: "narrow Build_hash ?s builds = Inr (Some [])"
    using c by (simp add: narrow_def filter_empty_conv)
  have d: "q_build_hash ?s = Some ''cb886aba06d5''" by simp
  have e: "''cb886aba06d5'' \<notin> {''^'', ''*'', ''-''}" by simp
  show ?thesis
    using empty_short_circuit [of "[]" ?s builds builds Build_hash
            "[Major, Minor, Patch, Branch, Commit_time]" "''cb886aba06d5''"]
          a b c d e
    by (simp add: list_all_iff)
qed

subsection \<open>Validation at construction\<close>

lemma check_positions_cases:
  "check_positions ps = Inr () \<or> (\<exists>pos. PStr pos \<in> set ps \<and> pos \<notin> {''^'', ''*'', ''-''} \<and> check_positions ps = Inl (ValueError (pos @ '' must be in [\"^\", \"*\", \"-\"]'')))"
  by (induction ps rule: check_positions.induct) auto

lemma check_positions_ok_iff:
  "check_positions ps = Inr () \<longleftrightarrow> (\<forall>pos. PStr pos \<in> set ps \<longrightarrow> pos \<in> {''^'', ''*'', ''-''})"
  by (induction ps rule: check_positions.induct) auto

lemma check_positions_error:
  "check_positions ps \<noteq> Inr () \<Longrightarrow> \<exists>msg. check_positions ps = Inl (ValueError msg)"
  using check_positions_cases [of ps] by blast

lemma truthy_mode: "x = Some ''^'' \<or> x = Some ''-'' \<Longrightarrow> truthy x"
  by (cases x) auto

lemma post_init_ok_iff:
  "post_init s = Inr () \<longleftrightarrow>
     check_positions [ios_val (q_major s), ios_val (q_minor s),
                      ios_val (q_patch s), dos_val (q_commit_time s)] = Inr () \<and>
     q_build_hash s \<notin> {Some ''^'', Some ''-''} \<and> q_branch s \<notin> {Some ''^'', Some ''-''}"
proof (cases "check_positions [ios_val (q_major s), ios_val (q_minor s),
                      ios_val (q_patch s), dos_val (q_commit_time s)]")
  case (Inl e)
  then show ?thesis by (simp add: post_init_def)
next
  case (Inr u)
  have a: "(truthy (q_build_hash s) \<and> q_build_hash s \<in> set [Some ''^'', Some ''-'']) \<longleftrightarrow>
           q_build_hash s \<in> {Some ''^'', Some ''-''}"
    using truthy_mode [of "q_build_hash s"] by auto
  have b: "(truthy (q_branch s) \<and> q_branch s \<in> set [Some ''^'', Some ''-'']) \<longleftrightarrow>
           q_branch s \<in> {Some ''^'', Some ''-''}"
    using truthy_mode [of "q_branch s"] by auto
  show ?thesis
    unfolding post_init_def a b using Inr by simp
qed

lemma ios_val_PStr: "ios_val a = PStr x \<longleftrightarrow> a = StrV x"
  by (cases a) auto

lemma dos_val_PStr: "dos_val a = PStr x \<longleftrightarrow> a = TStrV x"
  by (cases a) auto

lemma post_init_error:
  assumes "post_init s \<noteq> Inr ()"
  shows "\<exists>msg. post_init s = Inl (ValueError msg)"
proof (cases "check_positions [ios_val (q_major s), ios_val (q_minor s),
                      ios_val (q_patch s), dos_val (q_commit_time s)]")
  case (Inl e)
  then show ?thesis
    using check_positions_error [of "[ios_val (q_major s), ios_val (q_minor s),
                      ios_val (q_patch s), dos_val (q_commit_time s)]"]
    by (auto simp: post_init_def)
next
  case (Inr u)
  show ?thesis
  proof (cases "truthy (q_build_hash s) \<and> q_build_hash s \<in> set [Some ''^'', Some ''-'']")
    case True
    then show ?thesis using Inr unfolding post_init_def by simp
  next
    case nb: False
    show ?thesis
    proof (cases "truthy (q_branch s) \<and> q_branch s \<in> set [Some ''^'', Some ''-'']")
      case True
      then show ?thesis using Inr nb unfolding post_init_def by simp
    next
      case False
      then have "post_init s = Inr ()" using Inr nb unfolding post_init_def by simp
      then show ?thesis using assms by simp
    qed
  qed
qed

lemma positions_ok_iff:
  "check_positions [ios_val ma, ios_val mi, ios_val pa, dos_val ct] = Inr () \<longleftrightarrow>
     \<not> ((\<exists>x. ma = StrV x \<and> x \<notin> {''^'', ''*'', ''-''}) \<or>
        (\<exists>x. mi = StrV x \<and> x \<notin> {''^'', ''*'', ''-''}) \<or>
        (\<exists>x. pa = StrV x \<and> x \<notin> {''^'', ''*'', ''-''}) \<or>
        (\<exists>x. ct = TStrV x \<and> x \<notin> {''^'', ''*'', ''-''}))"
  by (cases ma; cases mi; cases pa; cases ct; simp)

text \<open>
  Claim C6. The constructor fails, with a ValueError, exactly when major, minor, patch
  or commit_time is a string other than \<open>^\<close>, \<open>*\<close>, \<open>-\<close>, or branch or build_hash is
  \<open>^\<close> or \<open>-\<close>; otherwise it returns the query with the fields as given.
\<close>

theorem construction_fails_iff:
  "((\<exists>msg. new_query ma mi pa br bh ct = Inl (ValueError msg)) \<longleftrightarrow>
      (\<exists>x. ma = StrV x \<and> x \<notin> {''^'', ''*'', ''-''}) \<or>
      (\<exists>x. mi = StrV x \<and> x \<notin> {''^'', ''*'', ''-''}) \<or>
      (\<exists>x. pa = StrV x \<and> x \<notin> {''^'', ''*'', ''-''}) \<or>
      (\<exists>x. ct = TStrV x \<and> x \<notin> {''^'', ''*'', ''-''}) \<or>
      br \<in> {Some ''^'', Some ''-''} \<or> bh \<in> {Some ''^'', Some ''-''}) \<and>
   (new_query ma mi pa br bh ct =
      Inr \<lparr>q_major = ma, q_minor = mi, q_patch = pa, q_branch = br,
           q_build_hash = bh, q_commit_time = ct\<rparr> \<or>
    (\<exists>msg. new_query ma mi pa br bh ct = Inl (ValueError msg)))"
proof -
  let ?self = "\<lparr>q_major = ma, q_minor = mi, q_patch = pa, q_branch = br,
                q_build_hash = bh, q_commit_time = ct\<rparr>"
  have new: "new_query ma mi pa br bh ct =
      (case post_init ?self of Inl e \<Rightarrow> Inl e | Inr _ \<Rightarrow> Inr ?self)"
    by (simp add: new_query_def Let_def)
  have ok: "post_init ?self = Inr () \<longleftrightarrow>
     \<not> ((\<exists>x. ma = StrV x \<and> x \<notin> {''^'', ''*'', ''-''}) \<or>
        (\<exists>x. mi = StrV x \<and> x \<notin> {''^'', ''*'', ''-''}) \<or>
        (\<exists>x. pa = StrV x \<and> x \<notin> {''^'', ''*'', ''-''}) \<or>
        (\<exists>x. ct = TStrV x \<and> x \<notin> {''^'', ''*'', ''-''}) \<or>
        br \<in> {Some ''^'', Some ''-''} \<or> bh \<in> {Some ''^'', Some ''-''})"
    unfolding post_init_ok_iff using positions_ok_iff [of ma mi pa ct] by auto
  show ?thesis
  proof (cases "post_init ?self = Inr ()")
    case True
    then show ?thesis using ok new by simp
  next
    case False
    then obtain msg where "post_init ?self = Inl (ValueError msg)"
      using post_init_error by blast
    then show ?thesis using ok new False by simp
  qed
qed

text \<open>Branch \<open>^\<close> is rejected, branch \<open>stable\<close> is accepted.\<close>

theorem construction_fails_iff_witness:
  "(\<exists>msg. new_query (IntV 4) (StrV ''^'') (StrV ''^'') (Some ''^'') None (TStrV ''^'')
      = Inl (ValueError msg)) \<and>
   new_query (IntV 4) (StrV ''^'') (StrV ''^'') (Some ''stable'') None (TStrV ''^'') =
     Inr \<lparr>q_major = IntV 4, q_minor = StrV ''^'', q_patch = StrV ''^'',
          q_branch = Some ''stable'', q_build_hash = None, q_commit_time = TStrV ''^''\<rparr>"
  using construction_fails_iff [of "IntV 4" "StrV ''^''" "StrV ''^''" "Some ''^''" None "TStrV ''^''"]
        construction_fails_iff [of "IntV 4" "StrV ''^''" "StrV ''^''" "Some ''stable''" None "TStrV ''^''"]
  by auto

subsection \<open>Absent fields and the wildcard\<close>

lemma narrow_branch_star:
  "narrow place (s\<lparr>q_branch := Some ''*''\<rparr>) vs = narrow place (s\<lparr>q_branch := None\<rparr>) vs"
  by (cases place) (simp_all add: narrow_def)

lemma narrow_build_hash_star:
  "narrow place (s\<lparr>q_build_hash := Some ''*''\<rparr>) vs = narrow place (s\<lparr>q_build_hash := None\<rparr>) vs"
  by (cases place) (simp_all add: narrow_def)

lemma match_loop_cong_narrow:
  assumes "\<And>place vs. narrow place s vs = narrow place s' vs"
  shows "match_loop places s vs = match_loop places s' vs"
  using assms by (induction places arbitrary: vs) (auto split: sum.splits option.splits)

text \<open>
  Claim C8. \<open>match\<close> gives the same result with branch (or build_hash) absent as with
  that field set to \<open>*\<close>.
\<close>

theorem absent_equals_wildcard:
  "match versions (s\<lparr>q_branch := None\<rparr>) = match versions (s\<lparr>q_branch := Some ''*''\<rparr>) \<and>
   match versions (s\<lparr>q_build_hash := None\<rparr>) = match versions (s\<lparr>q_build_hash := Some ''*''\<rparr>)"
  unfolding match_def
  using match_loop_cong_narrow [OF narrow_branch_star]
        match_loop_cong_narrow [OF narrow_build_hash_star]
  by metis

text \<open>The same on the test catalog.\<close>

theorem absent_equals_wildcard_witness:
  "match builds (latest_minor_query\<lparr>q_branch := None\<rparr>) =
     match builds (latest_minor_query\<lparr>q_branch := Some ''*''\<rparr>) \<and>
   match builds (latest_minor_query\<lparr>q_build_hash := None\<rparr>) =
     match builds (latest_minor_query\<lparr>q_build_hash := Some ''*''\<rparr>)"
  using absent_equals_wildcard [of builds latest_minor_query] by simp

lemma post_init_branch_star:
  "post_init (s\<lparr>q_branch := Some ''*''\<rparr>) = post_init (s\<lparr>q_branch := None\<rparr>)"
  by (auto simp: post_init_def split: sum.splits)

lemma post_init_build_hash_star:
  "post_init (s\<lparr>q_build_hash := Some ''*''\<rparr>) = post_init (s\<lparr>q_build_hash := None\<rparr>)"
  by (auto simp: post_init_def split: sum.splits)

lemma narrow_star_continues:
  "narrow Branch (s\<lparr>q_branch := Some ''*''\<rparr>) vs = Inr None"
  "narrow Build_hash (s\<lparr>q_build_hash := Some ''*''\<rparr>) vs = Inr None"
  by (simp_all add: narrow_def)

lemma match_all_wildcards:
  "match vs \<lparr>q_major = StrV ''*'', q_minor = StrV ''*'', q_patch = StrV ''*'',
             q_branch = Some ''*'', q_build_hash = Some ''*'', q_commit_time = TStrV ''*''\<rparr> = Inr vs"
  by (simp add: match_def PLACES_def narrow_def)

text \<open>
  Claim C10. A query with branch \<open>*\<close> or build_hash \<open>*\<close> passes validation whenever
  the query with that field absent does (the outcome of validation is the same), and
  \<open>match\<close> treats the explicit \<open>*\<close> like the absent field. The step of the loop for a
  field that is \<open>*\<close> is the \<open>continue\<close>: it filters nothing and hands on the candidates
  as they are; with \<open>*\<close> in every field \<open>match\<close> returns the whole catalog.
\<close>

theorem explicit_wildcard_accepted:
  "(post_init (s\<lparr>q_branch := None\<rparr>) = Inr () \<longrightarrow> post_init (s\<lparr>q_branch := Some ''*''\<rparr>) = Inr ()) \<and>
   (post_init (s\<lparr>q_build_hash := None\<rparr>) = Inr () \<longrightarrow>
      post_init (s\<lparr>q_build_hash := Some ''*''\<rparr>) = Inr ()) \<and>
   match versions (s\<lparr>q_branch := Some ''*''\<rparr>) = match versions (s\<lparr>q_branch := None\<rparr>) \<and>
   match versions (s\<lparr>q_build_hash := Some ''*''\<rparr>) = match versions (s\<lparr>q_build_hash := None\<rparr>) \<and>
   post_init (s\<lparr>q_branch := Some ''*''\<rparr>) = post_init (s\<lparr>q_branch := None\<rparr>) \<and>
   post_init (s\<lparr>q_build_hash := Some ''*''\<rparr>) = post_init (s\<lparr>q_build_hash := None\<rparr>) \<and>
   narrow Branch (s\<lparr>q_branch := Some ''*''\<rparr>) versions = Inr None \<and>
   narrow Build_hash (s\<lparr>q_build_hash := Some ''*''\<rparr>) versions = Inr None \<and>
   match_loop (Branch # places) (s\<lparr>q_branch := Some ''*''\<rparr>) versions =
     match_loop places (s\<lparr>q_branch := Some ''*''\<rparr>) versions \<and>
   match_loop (Build_hash # places) (s\<lparr>q_build_hash := Some ''*''\<rparr>) versions =
     match_loop places (s\<lparr>q_build_hash := Some ''*''\<rparr>) versions \<and>
   match versions \<lparr>q_major = StrV ''*'', q_minor = StrV ''*'', q_patch = StrV ''*'',
                   q_branch = Some ''*'', q_build_hash = Some ''*'', q_commit_time = TStrV ''*''\<rparr> =
     Inr versions"
proof -
  have m: "match versions (s\<lparr>q_branch := Some ''*''\<rparr>) = match versions (s\<lparr>q_branch := None\<rparr>)"
          "match versions (s\<lparr>q_build_hash := Some ''*''\<rparr>) = match versions (s\<lparr>q_build_hash := None\<rparr>)"
    unfolding match_def
    using match_loop_cong_narrow [OF narrow_branch_star]
          match_loop_cong_narrow [OF narrow_build_hash_star]
    by metis+
  have l: "match_loop (Branch # places) (s\<lparr>q_branch := Some ''*''\<rparr>) versions =
             match_loop places (s\<lparr>q_branch := Some ''*''\<rparr>) versions"
          "match_loop (Build_hash # places) (s\<lparr>q_build_hash := Some ''*''\<rparr>) versions =
             match_loop places (s\<lparr>q_build_hash := Some ''*''\<rparr>) versions"
    by (simp_all add: narrow_star_continues)
  show ?thesis
    using m l narrow_star_continues [of s versions] match_all_wildcards [of versions]
          post_init_branch_star [of s] post_init_build_hash_star [of s]
    by simp
qed

text \<open>The same on the test catalog.\<close>

theorem explicit_wildcard_accepted_witness:
  "post_init (latest_minor_query\<lparr>q_branch := None\<rparr>) = Inr () \<and>
   post_init (latest_minor_query\<lparr>q_branch := Some ''*''\<rparr>) = Inr () \<and>
   post_init (latest_minor_query\<lparr>q_build_hash := None\<rparr>) = Inr () \<and>
   post_init (latest_minor_query\<lparr>q_build_hash := Some ''*''\<rparr>) = Inr () \<and>
   match builds (latest_minor_query\<lparr>q_branch := Some ''*''\<rparr>) =
     match builds (latest_minor_query\<lparr>q_branch := None\<rparr>) \<and>
   match builds (latest_minor_query\<lparr>q_build_hash := Some ''*''\<rparr>) =
     match builds (latest_minor_query\<lparr>q_build_hash := None\<rparr>) \<and>
   narrow Branch (latest_minor_query\<lparr>q_branch := Some ''*''\<rparr>) builds = Inr None \<and>
   narrow Build_hash (latest_minor_query\<lparr>q_build_hash := Some ''*''\<rparr>) builds = Inr None \<and>
   match_loop [Branch, Commit_time] (latest_minor_query\<lparr>q_branch := Some ''*''\<rparr>) builds =
     match_loop [Commit_time] (latest_minor_query\<lparr>q_branch := Some ''*''\<rparr>) builds \<and>
   match builds \<lparr>q_major = StrV ''*'', q_minor = StrV ''*'', q_patch = StrV ''*'',
                 q_branch = Some ''*'', q_build_hash = Some ''*'', q_commit_time = TStrV ''*''\<rparr> =
     Inr builds"
proof -
  have a: "post_init (latest_minor_query\<lparr>q_branch := None\<rparr>) = Inr ()"
    by (simp add: post_init_def latest_minor_query_def)
  have b: "post_init (latest_minor_query\<lparr>q_build_hash := None\<rparr>) = Inr ()"
    by (simp add: post_init_def latest_minor_query_def)
  show ?thesis
    using explicit_wildcard_accepted [of latest_minor_query builds "[Commit_time]"] a b
    by simp
qed

section \<open>Properties of the query grammar\<close>

lemma plus_matches_elem:
  "x \<in> set (plus_matches cs (n, s, g)) \<Longrightarrow>
     \<exists>k. 0 < k \<and> k \<le> length s \<and> x = (n + k, drop k s, g) \<and> list_all (in_set cs) (take k s)"
proof (induction s arbitrary: n)
  case Nil
  then show ?case by simp
next
  case (Cons c r)
  show ?case
  proof (cases "in_set cs c")
    case False
    then show ?thesis using Cons.prems by simp
  next
    case True
    then consider "x \<in> set (plus_matches cs (Suc n, r, g))" | "x = (Suc n, r, g)"
      using Cons.prems by auto
    then show ?thesis
    proof cases
      case 1
      from Cons.IH [OF this] obtain k where
        "0 < k" "k \<le> length r" "x = (Suc n + k, drop k r, g)" "list_all (in_set cs) (take k r)"
        by blast
      then show ?thesis using True by (intro exI [of _ "Suc k"]) simp
    next
      case 2
      then show ?thesis using True by (intro exI [of _ 1]) simp
    qed
  qed
qed

lemma set_matches_Seq:
  "x \<in> set (matches (Seq a b) st) \<longleftrightarrow> (\<exists>y \<in> set (matches a st). x \<in> set (matches b y))"
  by auto

lemma matches_inv:
  "(n', s', g') \<in> set (matches r (n, s, g)) \<Longrightarrow>
     n \<le> n' \<and> n' - n \<le> length s \<and> s' = drop (n' - n) s \<and> (\<forall>k. k \<notin> groups_of r \<longrightarrow> g' k = g k)"
proof (induction r arbitrary: n s g n' s' g')
  case Bol
  then show ?case by (auto split: if_splits)
next
  case Eol
  then show ?case by (auto split: if_splits)
next
  case (Chr cs)
  then show ?case by (cases s) (auto split: if_splits)
next
  case (Plus cs)
  then show ?case using plus_matches_elem [of "(n', s', g')" cs n s g] by auto
next
  case (Seq a b)
  then obtain n1 s1 g1 where
    a: "(n1, s1, g1) \<in> set (matches a (n, s, g))" and
    b: "(n', s', g') \<in> set (matches b (n1, s1, g1))"
    by auto
  from Seq.IH(1) [OF a] Seq.IH(2) [OF b] show ?case by auto
next
  case (Alt a b)
  then show ?case by auto
next
  case (Opt a)
  then show ?case by auto
next
  case (Group k a)
  then obtain g0 where "(n', s', g0) \<in> set (matches a (n, s, g))" "g' = g0(k \<mapsto> take (n' - n) s)"
    by auto
  with Group.IH show ?case by auto
qed

lemma matches_frame:
  "(n', s', g') \<in> set (matches r (n, s, g)) \<Longrightarrow> k \<notin> groups_of r \<Longrightarrow> g' k = g k"
  using matches_inv by blast

lemma in_MODE: "in_set MODE c \<longleftrightarrow> c = CHR ''^'' \<or> c = CHR ''-'' \<or> c = CHR ''*''"
  by (auto simp: MODE_def)

lemma group_num_valid:
  assumes "(n', s', g') \<in> set (matches (Group k NUM) (n, s, g))"
  shows "\<exists>t. g' k = Some t \<and> valid_num t"
proof -
  from assms obtain g0 where
    m: "(n', s', g0) \<in> set (matches NUM (n, s, g))" and g': "g' = g0(k \<mapsto> take (n' - n) s)"
    by auto
  from m consider "(n', s', g0) \<in> set (matches (Chr MODE) (n, s, g))"
    | "(n', s', g0) \<in> set (plus_matches (In [Digit]) (n, s, g))"
    by (auto simp: NUM_def)
  then have "valid_num (take (n' - n) s)"
  proof cases
    case 1
    then show ?thesis
      by (cases s) (auto simp: valid_num_def in_MODE split: if_splits)
  next
    case 2
    from plus_matches_elem [OF this] show ?thesis
      by (auto simp: valid_num_def list_all_iff)
  qed
  then show ?thesis using g' by simp
qed

lemma seq_group_num:
  assumes "x \<in> set (matches (Seq (Group k NUM) r) st)" "k \<notin> groups_of r"
  shows "\<exists>t. snd (snd x) k = Some t \<and> valid_num t"
proof -
  from assms(1) obtain y where y: "y \<in> set (matches (Group k NUM) st)" "x \<in> set (matches r y)"
    by auto
  obtain n s g where st: "st = (n, s, g)" by (cases st)
  obtain n1 s1 g1 where y1: "y = (n1, s1, g1)" by (cases y)
  obtain n2 s2 g2 where x2: "x = (n2, s2, g2)" by (cases x)
  from group_num_valid y(1) st y1 obtain t where "g1 k = Some t" "valid_num t" by blast
  moreover have "g2 k = g1 k" using matches_frame y(2) y1 x2 assms(2) by blast
  ultimately show ?thesis using x2 by simp
qed

lemma groups_of_parts [simp]:
  "groups_of BRANCH_PART = {4}" "groups_of HASH_PART = {5}" "groups_of TIME_PART = {6}"
  by (auto simp: BRANCH_PART_def HASH_PART_def TIME_PART_def)

lemma groups_of_NUM [simp]: "groups_of NUM = {}"
  by (simp add: NUM_def)

lemma groups_of_DOT [simp]: "groups_of DOT = {}"
  by (simp add: DOT_def)

lemma regex_groups_valid:
  assumes "re_match VERSION_SEARCH_REGEX s = Some m"
  shows "(\<exists>t. m 1 = Some t \<and> valid_num t) \<and> (\<exists>t. m 2 = Some t \<and> valid_num t) \<and>
         (\<exists>t. m 3 = Some t \<and> valid_num t)"
proof -
  let ?T = "Seq BRANCH_PART (Seq HASH_PART (Seq TIME_PART Eol))"
  let ?R3 = "Seq (Group 3 NUM) ?T"
  let ?R2 = "Seq (Group 2 NUM) (Seq DOT ?R3)"
  let ?R1 = "Seq (Group 1 NUM) (Seq DOT ?R2)"
  from assms obtain n rest where
    x: "(n, rest, m) \<in> set (matches VERSION_SEARCH_REGEX (0, s, Map.empty))"
    by (auto simp: re_match_def split: list.splits)
  then obtain y1 where x1: "(n, rest, m) \<in> set (matches ?R1 y1)"
    unfolding VERSION_SEARCH_REGEX_def set_matches_Seq [of _ Bol] by blast
  have g1: "\<exists>t. m 1 = Some t \<and> valid_num t"
    using seq_group_num [OF x1] by simp
  from x1 obtain y2 where x2: "(n, rest, m) \<in> set (matches ?R2 y2)"
    unfolding set_matches_Seq [of _ "Group 1 NUM"] set_matches_Seq [of _ DOT] by blast
  have g2: "\<exists>t. m 2 = Some t \<and> valid_num t"
    using seq_group_num [OF x2] by simp
  from x2 obtain y3 where x3: "(n, rest, m) \<in> set (matches ?R3 y3)"
    unfolding set_matches_Seq [of _ "Group 2 NUM"] set_matches_Seq [of _ DOT] by blast
  have g3: "\<exists>t. m 3 = Some t \<and> valid_num t"
    using seq_group_num [OF x3] by simp
  show ?thesis using g1 g2 g3 by blast
qed

lemma is_digit_numeric: "is_digit c \<Longrightarrow> is_numeric_char c"
  by (simp add: is_digit_def is_numeric_char_def)

lemma mode_not_numeric: "t \<in> {''^'', ''*'', ''-''} \<Longrightarrow> \<not> isnumeric t"
  by (auto simp: isnumeric_def is_numeric_char_def py_ord_def)

lemma to_int_if_numeric_valid:
  assumes "valid_num t" "length t \<le> MAX_STR_DIGITS"
  shows "\<exists>v. to_int_if_numeric (Some t) = Inr v \<and>
             (\<forall>rest. check_positions (ios_val v # rest) = check_positions rest)"
proof (cases "t \<in> {''^'', ''*'', ''-''}")
  case True
  then have "to_int_if_numeric (Some t) = Inr (StrV t)"
    using mode_not_numeric by simp
  moreover have "check_positions (ios_val (StrV t) # rest) = check_positions rest" for rest
    using True by auto
  ultimately show ?thesis by blast
next
  case False
  then have d: "t \<noteq> []" "list_all is_digit t" using assms by (auto simp: valid_num_def)
  then have "isnumeric t" by (auto simp: isnumeric_def list_all_iff is_digit_numeric)
  then have "\<exists>n. to_int_if_numeric (Some t) = Inr (IntV n)"
    using d assms(2) by (simp add: py_int_def)
  then show ?thesis by auto
qed

lemma parse_tuple_matched:
  assumes "re_match VERSION_SEARCH_REGEX s = Some m" "digit_limit_ok m"
  shows "\<exists>ma mi pa.
           parse_tuple fromisoformat s =
             Inr (ma, mi, pa, m 4, m 5,
                  (let commit_time = (case m 6 of None \<Rightarrow> ''^'' | Some t \<Rightarrow> t) in
                   if commit_time \<notin> set [''^'', ''*'', ''-'']
                   then (case fromisoformat commit_time of
                           Some d \<Rightarrow> DtV d
                         | None \<Rightarrow> TStrV commit_time)
                   else TStrV commit_time)) \<and>
           to_int_if_numeric (m 1) = Inr ma \<and> to_int_if_numeric (m 2) = Inr mi \<and>
           to_int_if_numeric (m 3) = Inr pa \<and>
           (\<forall>ct. check_positions [ios_val ma, ios_val mi, ios_val pa, ct] = check_positions [ct])"
proof -
  from regex_groups_valid [OF assms(1)] obtain t1 t2 t3 where
    t: "m 1 = Some t1" "valid_num t1" "m 2 = Some t2" "valid_num t2" "m 3 = Some t3" "valid_num t3"
    by blast
  have l: "length t1 \<le> MAX_STR_DIGITS" "length t2 \<le> MAX_STR_DIGITS" "length t3 \<le> MAX_STR_DIGITS"
    using assms(2) t(1,3,5) by (simp_all add: digit_limit_ok_def)
  from to_int_if_numeric_valid [OF t(2) l(1)] obtain ma where
    ma: "to_int_if_numeric (Some t1) = Inr ma"
        "\<And>rest. check_positions (ios_val ma # rest) = check_positions rest" by blast
  from to_int_if_numeric_valid [OF t(4) l(2)] obtain mi where
    mi: "to_int_if_numeric (Some t2) = Inr mi"
        "\<And>rest. check_positions (ios_val mi # rest) = check_positions rest" by blast
  from to_int_if_numeric_valid [OF t(6) l(3)] obtain pa where
    pa: "to_int_if_numeric (Some t3) = Inr pa"
        "\<And>rest. check_positions (ios_val pa # rest) = check_positions rest" by blast
  have "parse_tuple fromisoformat s =
             Inr (ma, mi, pa, m 4, m 5,
                  (let commit_time = (case m 6 of None \<Rightarrow> ''^'' | Some t \<Rightarrow> t) in
                   if commit_time \<notin> set [''^'', ''*'', ''-'']
                   then (case fromisoformat commit_time of
                           Some d \<Rightarrow> DtV d
                         | None \<Rightarrow> TStrV commit_time)
                   else TStrV commit_time))"
    unfolding parse_tuple_def assms(1) Let_def using t(1,3,5) ma(1) mi(1) pa(1) by simp
  moreover have "check_positions [ios_val ma, ios_val mi, ios_val pa, ct] = check_positions [ct]" for ct
    by (simp only: ma(2) mi(2) pa(2))
  ultimately show ?thesis using t(1,3,5) ma(1) mi(1) pa(1) by auto
qed

text \<open>
  Claim C4, as amended. When the input matches, with version components within the
  digit limit of \<open>int\<close>, and its commit-time token is neither a mode symbol nor accepted
  by \<open>fromisoformat\<close>, \<open>_parse\<close> succeeds and keeps the token as it is, and
  \<open>VersionSearchQuery.parse\<close> then fails in the constructor with the ValueError that
  names the token.
\<close>

theorem malformed_time_rejected_at_construction:
  assumes "re_match VERSION_SEARCH_REGEX s = Some m" and "m 6 = Some tok"
      and "tok \<notin> {''^'', ''*'', ''-''}" and "fromisoformat tok = None"
      and "digit_limit_ok m"
  shows "(\<exists>ma mi pa. parse_tuple fromisoformat s = Inr (ma, mi, pa, m 4, m 5, TStrV tok)) \<and>
         parse fromisoformat s = Inl (ValueError (tok @ '' must be in [\"^\", \"*\", \"-\"]''))"
proof -
  from parse_tuple_matched [OF assms(1,5), of fromisoformat] obtain ma mi pa where
    p: "parse_tuple fromisoformat s = Inr (ma, mi, pa, m 4, m 5, TStrV tok)" and
    c: "\<And>ct. check_positions [ios_val ma, ios_val mi, ios_val pa, ct] = check_positions [ct]"
    using assms(2,3,4) by auto
  have "post_init \<lparr>q_major = ma, q_minor = mi, q_patch = pa, q_branch = m 4,
                   q_build_hash = m 5, q_commit_time = TStrV tok\<rparr> =
        Inl (ValueError (tok @ '' must be in [\"^\", \"*\", \"-\"]''))"
    using assms(3) by (simp add: post_init_def c)
  then have "parse fromisoformat s = Inl (ValueError (tok @ '' must be in [\"^\", \"*\", \"-\"]''))"
    by (simp add: parse_def p new_query_def)
  with p show ?thesis by blast
qed

lemma match_TT:
  "map_option (\<lambda>m. [m 1, m 2, m 3, m 4, m 5, m 6]) (re_match VERSION_SEARCH_REGEX ''1.2.3@TT'') =
     Some [Some ''1'', Some ''2'', Some ''3'', None, None, Some ''TT'']"
  by code_simp

text \<open>
  Claim C4 as stated fails: the token \<open>TT\<close> matches the character class of the commit
  time and is no timestamp, and \<open>parse\<close> raises instead of returning a query.
\<close>

theorem malformed_time_parse_error:
  "map_option (\<lambda>m. m 6) (re_match VERSION_SEARCH_REGEX ''1.2.3@TT'') = Some (Some ''TT'') \<and>
   no_datetime ''TT'' = None \<and>
   parse no_datetime ''1.2.3@TT'' = Inl (ValueError ''TT must be in [\"^\", \"*\", \"-\"]'')"
  by code_simp

text \<open>The amended claim on the same input.\<close>

theorem malformed_time_rejected_at_construction_witness:
  "map_option (\<lambda>m. [m 1, m 2, m 3, m 4, m 5, m 6]) (re_match VERSION_SEARCH_REGEX ''1.2.3@TT'') =
     Some [Some ''1'', Some ''2'', Some ''3'', None, None, Some ''TT''] \<and>
   map_option digit_limit_ok (re_match VERSION_SEARCH_REGEX ''1.2.3@TT'') = Some True \<and>
   ''TT'' \<notin> {''^'', ''*'', ''-''} \<and> no_datetime ''TT'' = None \<and>
   (\<exists>ma mi pa. parse_tuple no_datetime ''1.2.3@TT'' = Inr (ma, mi, pa, None, None, TStrV ''TT'')) \<and>
   parse no_datetime ''1.2.3@TT'' = Inl (ValueError ''TT must be in [\"^\", \"*\", \"-\"]'')"
proof -
  from match_TT obtain m where
    m: "re_match VERSION_SEARCH_REGEX ''1.2.3@TT'' = Some m" "m 4 = None" "m 5 = None"
       "m 6 = Some ''TT''" "m 1 = Some ''1''" "m 2 = Some ''2''" "m 3 = Some ''3''"
    by auto
  have a: "''TT'' \<notin> {''^'', ''*'', ''-''}" by simp
  have b: "no_datetime ''TT'' = None" by (simp add: no_datetime_def)
  have c: "digit_limit_ok m" using m(5-7) by (simp add: digit_limit_ok_def MAX_STR_DIGITS_def)
  from malformed_time_rejected_at_construction
         [of "''1.2.3@TT''" m "''TT''" no_datetime, OF m(1) m(4) a b c] m(1,2,3) match_TT a b c
  show ?thesis by simp
qed

section \<open>Properties of BasicBuildInfo\<close>

lemma astimezone_utc_result:
  assumes "astimezone_utc lo d = Inr t"
  shows "tzinfo t = Some UTC \<and> (\<exists>off. source_offset lo d = Inr off \<and> wall t = wall d - off)"
proof (cases "tzinfo d = Some UTC")
  case True
  then have "t = d" "source_offset lo d = Inr 0"
    using assms by (simp_all add: astimezone_utc_def source_offset_def utcoffset_def)
  then show ?thesis using True by simp
next
  case False
  then show ?thesis
    using assms by (auto simp: astimezone_utc_def Let_def split: sum.splits if_splits)
qed

lemma utc_tzinfo:
  assumes "tzinfo t = Some UTC"
  shows "utcoffset t = Some 0 \<and> utc_instant t = wall t \<and> fixed_offset t \<and> aware t"
  using assms by (simp add: utcoffset_def utc_instant_def fixed_offset_def aware_def)

lemma source_offset_cases:
  "(aware d \<longrightarrow> (\<exists>off. utcoffset d = Some off \<and> source_offset lo d = Inr off)) \<and>
   (\<not> aware d \<longrightarrow> source_offset lo d = lo (wall d) (fold d))"
  by (auto simp: aware_def source_offset_def)

lemma from_buildinfo_result:
  assumes "from_buildinfo lo b = Inr r"
  shows "astimezone_utc lo (bi_commit_time b) = Inr (commit_time r) \<and>
         version r = full_semversion b \<and> branch r = bi_branch b \<and>
         build_hash r = (case bi_build_hash b of None \<Rightarrow> [] | Some h \<Rightarrow> h)"
  using assms by (auto simp: from_buildinfo_def split: sum.splits)

lemma from_buildinfo_utc: "from_buildinfo lo b = Inr r \<Longrightarrow> tzinfo (commit_time r) = Some UTC"
  using astimezone_utc_result from_buildinfo_result by blast

text \<open>
  Claim C9, as amended. A build made by \<open>from_buildinfo\<close> has its commit time at
  \<open>timezone.utc\<close>, with offset zero, at the instant of the time it was made from: of an
  aware time its own instant, of a naive time its reading less the offset of the
  system's local time zone. The other fields are those of the \<open>BuildInfo\<close>, the build
  hash \<open>None\<close> as the empty string. Two such builds compare without error, and a catalog
  of such builds has comparable commit times.
\<close>

theorem from_buildinfo_normalizes:
  "(from_buildinfo lo b = Inr r \<longrightarrow>
      utcoffset (commit_time r) = Some 0 \<and>
      (aware (bi_commit_time b) \<longrightarrow> utc_instant (commit_time r) = utc_instant (bi_commit_time b)) \<and>
      tzinfo (commit_time r) = Some UTC \<and>
      (\<not> aware (bi_commit_time b) \<longrightarrow>
         (\<exists>off. lo (wall (bi_commit_time b)) (fold (bi_commit_time b)) = Inr off \<and>
                utc_instant (commit_time r) = wall (bi_commit_time b) - off)) \<and>
      version r = full_semversion b \<and> branch r = bi_branch b \<and>
      build_hash r = (case bi_build_hash b of None \<Rightarrow> [] | Some h \<Rightarrow> h)) \<and>
   (from_buildinfo lo b1 = Inr r1 \<and> from_buildinfo lo b2 = Inr r2 \<longrightarrow>
      (\<exists>res. BasicBuildInfo_lt r1 r2 = Inr res)) \<and>
   (list_all (\<lambda>r. \<exists>b. from_buildinfo lo b = Inr r) rs \<longrightarrow> comparable_times rs)"
proof (intro conjI impI)
  assume r: "from_buildinfo lo b = Inr r"
  let ?d = "bi_commit_time b" and ?t = "commit_time r"
  from astimezone_utc_result from_buildinfo_result [OF r] obtain off where
    t: "tzinfo ?t = Some UTC" "source_offset lo ?d = Inr off" "wall ?t = wall ?d - off"
    by blast
  show "utcoffset ?t = Some 0" "tzinfo ?t = Some UTC"
    using utc_tzinfo [OF t(1)] t(1) by simp_all
  show "version r = full_semversion b" "branch r = bi_branch b"
       "build_hash r = (case bi_build_hash b of None \<Rightarrow> [] | Some h \<Rightarrow> h)"
    using from_buildinfo_result [OF r] by simp_all
  {
    assume "aware ?d"
    then obtain x where "utcoffset ?d = Some x" "source_offset lo ?d = Inr x"
      using source_offset_cases [of ?d lo] by blast
    then show "utc_instant ?t = utc_instant ?d"
      using t utc_tzinfo [OF t(1)] by (simp add: utc_instant_def)
  }
  {
    assume "\<not> aware ?d"
    then have "lo (wall ?d) (fold ?d) = Inr off"
      using source_offset_cases [of ?d lo] t(2) by simp
    then show "\<exists>off. lo (wall ?d) (fold ?d) = Inr off \<and> utc_instant ?t = wall ?d - off"
      using t(3) utc_tzinfo [OF t(1)] by simp
  }
next
  assume "from_buildinfo lo b1 = Inr r1 \<and> from_buildinfo lo b2 = Inr r2"
  then have "tzinfo (commit_time r1) = tzinfo (commit_time r2)"
    using from_buildinfo_utc [of lo b1 r1] from_buildinfo_utc [of lo b2 r2] by simp
  then show "\<exists>res. BasicBuildInfo_lt r1 r2 = Inr res"
    by (simp add: BasicBuildInfo_lt_def datetime_lt_def datetime_diff_def)
next
  assume "list_all (\<lambda>r. \<exists>b. from_buildinfo lo b = Inr r) rs"
  then have "list_all (\<lambda>v. fixed_offset (commit_time v)) rs"
    unfolding list_all_iff using from_buildinfo_utc utc_tzinfo by blast
  then show "comparable_times rs" by (simp add: comparable_times_def)
qed

text \<open>
  \<open>from_buildinfo\<close> returns a build unless \<open>astimezone\<close> raises: the lookup of the local
  offset for a naive time, or a result outside the years 1 to 9999. On a system whose
  local time is UTC the naive time 0001-01-01 12:00 raises ValueError, and the time
  0001-01-01 00:00 at offset +02:00 raises OverflowError.
\<close>

lemma from_buildinfo_returns_iff:
  "(\<exists>r. from_buildinfo lo b = Inr r) \<longleftrightarrow>
     tzinfo (bi_commit_time b) = Some UTC \<or>
     (\<exists>off. source_offset lo (bi_commit_time b) = Inr off \<and>
            0 \<le> wall (bi_commit_time b) - off \<and> wall (bi_commit_time b) - off < MAX_WALL)"
  by (auto simp: from_buildinfo_def astimezone_utc_def Let_def split: sum.splits)

lemma from_buildinfo_raises:
  "from_buildinfo utc_local_offset (sample_buildinfo (naive_datetime 43200000000)) =
     Inl (ValueError ''year 0 is out of range'') \<and>
   from_buildinfo utc_local_offset (sample_buildinfo (offset_datetime 7200000000 0)) =
     Inl (OverflowError ''date value out of range'')"
  by (intro conjI; code_simp)

text \<open>
  Claim C9 as stated fails: the constructor stores a naive commit time as it is, and
  comparing that build with one at an aware commit time raises TypeError.
\<close>

theorem naive_commit_time_stored:
  "\<not> aware (commit_time (new_build \<lparr>major = 4, minor = 3, patch = 0\<rparr> ''daily'' []
       (naive_datetime 63857894400000000))) \<and>
   commit_time (new_build \<lparr>major = 4, minor = 3, patch = 0\<rparr> ''daily'' []
       (naive_datetime 63857894400000000)) = naive_datetime 63857894400000000 \<and>
   BasicBuildInfo_lt
     (new_build \<lparr>major = 4, minor = 3, patch = 0\<rparr> ''daily'' []
        (naive_datetime 63857894400000000))
     (new_build \<lparr>major = 4, minor = 3, patch = 0\<rparr> ''daily'' [] (utc_datetime 63857721600000000))
   = Inl (TypeError ''can't compare offset-naive and offset-aware datetimes'')"
  by (simp add: new_build_def aware_def BasicBuildInfo_lt_def datetime_lt_def datetime_diff_def
        utcoffset_def utc_datetime_def naive_datetime_def)

lemma sample_from_buildinfo:
  "from_buildinfo utc_local_offset
     (sample_buildinfo (offset_datetime 7200000000 63857901600000000)) =
     Inr (new_build \<lparr>major = 4, minor = 3, patch = 0\<rparr> ''daily'' ''cb886aba06d5''
            (utc_datetime 63857894400000000))"
  by (simp add: from_buildinfo_def sample_buildinfo_def astimezone_utc_def MAX_WALL_def
        source_offset_def utcoffset_def offset_datetime_def new_build_def utc_datetime_def)

lemma sample_from_buildinfo_naive:
  "from_buildinfo utc_local_offset (sample_buildinfo (naive_datetime 63857721600000000)) =
     Inr (new_build \<lparr>major = 4, minor = 3, patch = 0\<rparr> ''daily'' ''cb886aba06d5''
            (utc_datetime 63857721600000000))"
  by (simp add: from_buildinfo_def sample_buildinfo_def astimezone_utc_def MAX_WALL_def
        source_offset_def utcoffset_def naive_datetime_def new_build_def utc_datetime_def
        utc_local_offset_def)

text \<open>
  A time at offset +02:00 and a naive one, on a system whose local time is UTC.
\<close>

theorem from_buildinfo_normalizes_witness:
  "from_buildinfo utc_local_offset
     (sample_buildinfo (offset_datetime 7200000000 63857901600000000)) =
     Inr (new_build \<lparr>major = 4, minor = 3, patch = 0\<rparr> ''daily'' ''cb886aba06d5''
            (utc_datetime 63857894400000000)) \<and>
   from_buildinfo utc_local_offset (sample_buildinfo (naive_datetime 63857721600000000)) =
     Inr (new_build \<lparr>major = 4, minor = 3, patch = 0\<rparr> ''daily'' ''cb886aba06d5''
            (utc_datetime 63857721600000000)) \<and>
   aware (offset_datetime 7200000000 63857901600000000) \<and>
   utcoffset (utc_datetime 63857894400000000) = Some 0 \<and>
   tzinfo (utc_datetime 63857894400000000) = Some UTC \<and>
   utc_instant (utc_datetime 63857894400000000) =
     utc_instant (offset_datetime 7200000000 63857901600000000) \<and>
   \<not> aware (naive_datetime 63857721600000000) \<and>
   utc_local_offset 63857721600000000 False = Inr 0 \<and>
   utc_instant (utc_datetime 63857721600000000) = 63857721600000000 - 0 \<and>
   (\<exists>off. utc_local_offset 63857721600000000 False = Inr off \<and>
          utc_instant (utc_datetime 63857721600000000) = 63857721600000000 - off) \<and>
   (\<exists>res. BasicBuildInfo_lt
      (new_build \<lparr>major = 4, minor = 3, patch = 0\<rparr> ''daily'' ''cb886aba06d5''
         (utc_datetime 63857894400000000))
      (new_build \<lparr>major = 4, minor = 3, patch = 0\<rparr> ''daily'' ''cb886aba06d5''
         (utc_datetime 63857721600000000)) = Inr res)"
proof -
  let ?d1 = "offset_datetime 7200000000 63857901600000000"
  let ?d2 = "naive_datetime 63857721600000000"
  let ?b1 = "sample_buildinfo ?d1"
  let ?b2 = "sample_buildinfo ?d2"
  let ?r1 = "new_build \<lparr>major = 4, minor = 3, patch = 0\<rparr> ''daily'' ''cb886aba06d5''
            (utc_datetime 63857894400000000)"
  let ?r2 = "new_build \<lparr>major = 4, minor = 3, patch = 0\<rparr> ''daily'' ''cb886aba06d5''
            (utc_datetime 63857721600000000)"
  have aw: "aware ?d1" "\<not> aware ?d2"
    by (simp_all add: aware_def utcoffset_def offset_datetime_def naive_datetime_def)
  have lo: "utc_local_offset 63857721600000000 False = Inr 0"
    by (simp add: utc_local_offset_def)
  have t: "bi_commit_time ?b1 = ?d1" "bi_commit_time ?b2 = ?d2"
    by (simp_all add: sample_buildinfo_def)
  have c: "commit_time ?r1 = utc_datetime 63857894400000000"
          "commit_time ?r2 = utc_datetime 63857721600000000"
    by (simp_all add: new_build_def)
  have i: "utc_instant (utc_datetime 63857721600000000) = 63857721600000000 - 0"
    by (simp add: utc_instant_def utcoffset_def utc_datetime_def)
  from from_buildinfo_normalizes [of utc_local_offset ?b1 ?r1 ?b1 ?r1 ?b2 ?r2 "[]"]
       sample_from_buildinfo sample_from_buildinfo_naive aw
  have 1: "utcoffset (utc_datetime 63857894400000000) = Some 0"
          "tzinfo (utc_datetime 63857894400000000) = Some UTC"
          "utc_instant (utc_datetime 63857894400000000) = utc_instant ?d1"
          "\<exists>res. BasicBuildInfo_lt ?r1 ?r2 = Inr res"
    unfolding t c by simp_all
  have w: "wall ?d2 = 63857721600000000" "fold ?d2 = False"
    by (simp_all add: naive_datetime_def)
  from from_buildinfo_normalizes [of utc_local_offset ?b2 ?r2 ?b1 ?r1 ?b2 ?r2 "[]"]
       sample_from_buildinfo_naive aw(2)
  have 2: "\<exists>off. utc_local_offset 63857721600000000 False = Inr off \<and>
            utc_instant (utc_datetime 63857721600000000) = 63857721600000000 - off"
    unfolding t c w by simp
  show ?thesis
    using sample_from_buildinfo sample_from_buildinfo_naive aw lo i 1 2 by simp
qed

section \<open>Serializing and parsing back\<close>

lemma re_match_first:
  "re_match r s = map_option (\<lambda>x. snd (snd x)) (first_match r (0, s, Map.empty))"
  by (auto simp: re_match_def first_match_def split: list.splits)

lemma first_match_Seq:
  assumes "first_match a st = Some x" "first_match b x = Some y"
  shows "first_match (Seq a b) st = Some y"
  using assms by (auto simp: first_match_def split: list.splits)

lemma first_match_Seq_Chr:
  "in_set cs c \<Longrightarrow> first_match (Seq (Chr cs) b) (n, c # r, g) = first_match b (Suc n, r, g)"
  by (simp add: first_match_def)

lemma first_match_Seq_Opt_take:
  assumes "first_match (Seq a c) st = Some y"
  shows "first_match (Seq (Opt a) c) st = Some y"
proof -
  have "matches (Seq (Opt a) c) st = matches (Seq a c) st @ matches c st" by simp
  moreover obtain tl where "matches (Seq a c) st = y # tl"
    using assms by (auto simp: first_match_def split: list.splits)
  ultimately show ?thesis by (simp add: first_match_def)
qed

lemma first_match_Seq_Opt_skip:
  assumes "matches a st = []"
  shows "first_match (Seq (Opt a) c) st = first_match c st"
  using assms by (simp add: first_match_def)

lemma concat_map_concat:
  "concat (map f (concat xss)) = concat (map (\<lambda>xs. concat (map f xs)) xss)"
  by (induction xss) auto

lemma matches_Seq_assoc: "matches (Seq (Seq a b) c) st = matches (Seq a (Seq b c)) st"
proof -
  have "matches (Seq b c) = (\<lambda>x. concat (map (matches c) (matches b x)))"
    by (rule ext) simp
  then show ?thesis by (simp add: concat_map_concat o_def)
qed

lemma first_match_Seq_assoc: "first_match (Seq (Seq a b) c) st = first_match (Seq a (Seq b c)) st"
  by (simp only: first_match_def matches_Seq_assoc)

lemma plus_matches_head:
  assumes "run \<noteq> []" "list_all (in_set cs) run" "rest = [] \<or> \<not> in_set cs (hd rest)"
  shows "\<exists>tl. plus_matches cs (n, run @ rest, g) = (n + length run, rest, g) # tl"
  using assms
proof (induction run arbitrary: n)
  case Nil
  then show ?case by simp
next
  case (Cons c run)
  show ?case
  proof (cases "run = []")
    case True
    have "plus_matches cs (Suc n, rest, g) = []"
      using Cons.prems(3) by (cases rest) auto
    then show ?thesis using True Cons.prems(2) by simp
  next
    case False
    from Cons.IH [OF False _ Cons.prems(3), of "Suc n"] Cons.prems(2)
    obtain tl where "plus_matches cs (Suc n, run @ rest, g) = (Suc n + length run, rest, g) # tl"
      by auto
    then show ?thesis using Cons.prems(2) by simp
  qed
qed

lemma first_match_Seq_Group_Plus:
  assumes "run \<noteq> []" "list_all (in_set cs) run" "rest = [] \<or> \<not> in_set cs (hd rest)"
      and "first_match c (n + length run, rest, g(k \<mapsto> run)) = Some y"
  shows "first_match (Seq (Group k (Plus cs)) c) (n, run @ rest, g) = Some y"
proof -
  from plus_matches_head [OF assms(1-3), of n g] obtain tl where
    "plus_matches cs (n, run @ rest, g) = (n + length run, rest, g) # tl" by blast
  then have "\<exists>tl'. matches (Group k (Plus cs)) (n, run @ rest, g) =
               (n + length run, rest, g(k \<mapsto> run)) # tl'"
    by simp
  then have "first_match (Group k (Plus cs)) (n, run @ rest, g) =
               Some (n + length run, rest, g(k \<mapsto> run))"
    by (auto simp: first_match_def)
  from first_match_Seq [OF this assms(4)] show ?thesis .
qed

lemma in_set_Lit [simp]: "in_set (In [Lit x]) c \<longleftrightarrow> c = x"
  by simp

lemma in_set_digit [simp]: "in_set (In [Digit]) c \<longleftrightarrow> is_digit c"
  by simp

lemma mode_not_digit: "in_set MODE c \<Longrightarrow> \<not> is_digit c"
  by (auto simp: in_MODE is_digit_def py_ord_def)

lemma first_match_Seq_Bol: "first_match (Seq Bol b) (0, s, g) = first_match b (0, s, g)"
  by (simp add: first_match_def)

lemma first_match_Seq_DOT:
  "first_match (Seq DOT b) (n, CHR ''.'' # r, g) = first_match b (Suc n, r, g)"
  unfolding DOT_def by (rule first_match_Seq_Chr) simp

lemma opt_prefixed_absent:
  assumes "s = [] \<or> hd s \<noteq> x"
  shows "first_match (Seq (Opt (Seq (Chr (In [Lit x])) r)) c) (n, s, g) = first_match c (n, s, g)"
proof -
  have "matches (Seq (Chr (In [Lit x])) r) (n, s, g) = []"
    using assms by (cases s) auto
  then show ?thesis by (rule first_match_Seq_Opt_skip)
qed

lemma opt_prefixed_present:
  assumes "run \<noteq> []" "list_all (in_set cs) run" "rest = [] \<or> \<not> in_set cs (hd rest)"
      and "first_match c (Suc n + length run, rest, g(k \<mapsto> run)) = Some y"
  shows "first_match (Seq (Opt (Seq (Chr (In [Lit x])) (Group k (Plus cs)))) c)
           (n, x # run @ rest, g) = Some y"
proof -
  have "first_match (Seq (Group k (Plus cs)) c) (Suc n, run @ rest, g) = Some y"
    using assms by (intro first_match_Seq_Group_Plus) auto
  then have "first_match (Seq (Chr (In [Lit x])) (Seq (Group k (Plus cs)) c)) (n, x # run @ rest, g) = Some y"
    by (simp add: first_match_Seq_Chr)
  then have "first_match (Seq (Seq (Chr (In [Lit x])) (Group k (Plus cs))) c) (n, x # run @ rest, g) = Some y"
    by (simp only: first_match_Seq_assoc)
  then show ?thesis by (rule first_match_Seq_Opt_take)
qed

lemma num_token:
  assumes "valid_num tok" "rest = [] \<or> \<not> is_digit (hd rest)"
      and "first_match b (n + length tok, rest, g(k \<mapsto> tok)) = Some y"
  shows "first_match (Seq (Group k NUM) b) (n, tok @ rest, g) = Some y"
proof (cases "tok \<in> {''^'', ''*'', ''-''}")
  case True
  then obtain c where c: "tok = [c]" "in_set MODE c" by (auto simp: in_MODE)
  have "plus_matches (In [Digit]) (n, c # rest, g) = []"
    using mode_not_digit [OF c(2)] by simp
  then have "matches (Group k NUM) (n, tok @ rest, g) = [(Suc n, rest, g(k \<mapsto> tok))]"
    using c by (simp add: NUM_def)
  then have "first_match (Group k NUM) (n, tok @ rest, g) = Some (Suc n, rest, g(k \<mapsto> tok))"
    by (simp add: first_match_def)
  from first_match_Seq [OF this] assms(3) c(1) show ?thesis by simp
next
  case False
  then have d: "tok \<noteq> []" "list_all is_digit tok" using assms(1) by (auto simp: valid_num_def)
  then obtain c r where cr: "tok = c # r" "is_digit c" by (cases tok) auto
  have nm: "\<not> in_set MODE c" using mode_not_digit cr(2) by blast
  have "list_all (in_set (In [Digit])) tok" using d(2) by (simp add: list_all_iff)
  from plus_matches_head [OF d(1) this, of rest n g] assms(2) obtain tl where
    "plus_matches (In [Digit]) (n, tok @ rest, g) = (n + length tok, rest, g) # tl" by auto
  then have "\<exists>tl'. matches (Group k NUM) (n, tok @ rest, g) = (n + length tok, rest, g(k \<mapsto> tok)) # tl'"
    using cr(1) nm by (simp add: NUM_def)
  then have "first_match (Group k NUM) (n, tok @ rest, g) = Some (n + length tok, rest, g(k \<mapsto> tok))"
    by (auto simp: first_match_def)
  from first_match_Seq [OF this assms(3)] show ?thesis .
qed

lemma time_chars_not_newline: "in_set TIME_CHARS c \<Longrightarrow> c \<noteq> CHR 0x0A"
  by (auto simp: TIME_CHARS_def is_digit_def py_ord_def)

lemma time_group_eol:
  assumes "t \<noteq> []" "list_all (in_set TIME_CHARS) t \<or> t = ''*''"
  shows "first_match (Seq (Group 6 (Alt (Chr MODE) (Plus TIME_CHARS))) Eol) (n, t, g)
           = Some (n + length t, [], g(6 \<mapsto> t))"
proof (cases "t \<in> {''^'', ''*'', ''-''}")
  case True
  then show ?thesis
    by (auto simp: first_match_def MODE_def TIME_CHARS_def)
next
  case False
  then have all: "list_all (in_set TIME_CHARS) t" using assms(2) by auto
  obtain c r where cr: "t = c # r" using assms(1) by (cases t) auto
  from plus_matches_head [OF assms(1) all, of "[]" "n" g] obtain tl where
    pl: "plus_matches TIME_CHARS (n, t, g) = (n + length t, [], g) # tl" by auto
  let ?upd = "\<lambda>(n', s', g'). (n', s', g'(6 \<mapsto> take (n' - n) t))"
  have eol_plus: "\<exists>tl'. concat (map (matches Eol) (map ?upd (plus_matches TIME_CHARS (n, t, g))))
                    = (n + length t, [], g(6 \<mapsto> t)) # tl'"
    unfolding pl by simp
  show ?thesis
  proof (cases "in_set MODE c")
    case False
    then have "matches (Chr MODE) (n, t, g) = []" using cr by simp
    then have m: "matches (Seq (Group 6 (Alt (Chr MODE) (Plus TIME_CHARS))) Eol) (n, t, g) =
               concat (map (matches Eol) (map ?upd (plus_matches TIME_CHARS (n, t, g))))"
      by simp
    from eol_plus obtain tl' where
      e: "concat (map (matches Eol) (map ?upd (plus_matches TIME_CHARS (n, t, g))))
            = (n + length t, [], g(6 \<mapsto> t)) # tl'" by blast
    show ?thesis unfolding first_match_def m e by simp
  next
    case True
    have r: "r \<noteq> []" using True \<open>t \<notin> {''^'', ''*'', ''-''}\<close> cr by (auto simp: in_MODE)
    have "r \<noteq> [CHR 0x0A]"
    proof
      assume "r = [CHR 0x0A]"
      then have "in_set TIME_CHARS (CHR 0x0A)" using all cr by simp
      then show False using time_chars_not_newline by blast
    qed
    then have "matches Eol (Suc n, r, g(6 \<mapsto> take (Suc n - n) t)) = []" using r by simp
    moreover have "matches (Chr MODE) (n, t, g) = [(Suc n, r, g)]" using True cr by simp
    ultimately have m: "matches (Seq (Group 6 (Alt (Chr MODE) (Plus TIME_CHARS))) Eol) (n, t, g) =
               concat (map (matches Eol) (map ?upd (plus_matches TIME_CHARS (n, t, g))))"
      by simp
    from eol_plus obtain tl' where
      e: "concat (map (matches Eol) (map ?upd (plus_matches TIME_CHARS (n, t, g))))
            = (n + length t, [], g(6 \<mapsto> t)) # tl'" by blast
    show ?thesis unfolding first_match_def m e by simp
  qed
qed

lemma time_tail:
  assumes "t \<noteq> []" "list_all (in_set TIME_CHARS) t \<or> t = ''*''"
  shows "first_match (Seq TIME_PART Eol) (n, CHR ''@'' # t, g)
           = Some (Suc n + length t, [], g(6 \<mapsto> t))"
proof -
  let ?G = "Group 6 (Alt (Chr MODE) (Plus TIME_CHARS))"
  have "first_match (Seq (Chr (In [Lit CHR ''@''])) (Seq ?G Eol)) (n, CHR ''@'' # t, g)
          = Some (Suc n + length t, [], g(6 \<mapsto> t))"
    using time_group_eol [OF assms, of "Suc n" g] by (simp add: first_match_Seq_Chr)
  then have "first_match (Seq (Seq (Chr (In [Lit CHR ''@''])) ?G) Eol) (n, CHR ''@'' # t, g)
          = Some (Suc n + length t, [], g(6 \<mapsto> t))"
    by (simp only: first_match_Seq_assoc)
  then show ?thesis unfolding TIME_PART_def by (rule first_match_Seq_Opt_take)
qed

lemma py_ord_digit_char: "d < 10 \<Longrightarrow> py_ord (digit_char d) = 48 + d"
  by (simp add: py_ord_def digit_char_def)

lemma is_digit_digit_char: "d < 10 \<Longrightarrow> is_digit (digit_char d)"
  by (simp add: is_digit_def py_ord_digit_char)

lemma str_nat_digits: "str_nat n \<noteq> [] \<and> list_all is_digit (str_nat n)"
proof (induction n rule: str_nat.induct)
  case (1 n)
  show ?case
  proof (cases "n < 10")
    case True
    then show ?thesis by (simp add: str_nat.simps [of n] is_digit_digit_char)
  next
    case False
    then show ?thesis using 1 by (simp add: str_nat.simps [of n] is_digit_digit_char)
  qed
qed

lemma digits_value_str_nat:
  "foldl (\<lambda>a c. 10 * a + (int (py_ord c) - 48)) 0 (str_nat n) = int n"
proof (induction n rule: str_nat.induct)
  case (1 n)
  show ?case
  proof (cases "n < 10")
    case True
    then show ?thesis by (simp add: str_nat.simps [of n] py_ord_digit_char)
  next
    case False
    then have "foldl (\<lambda>a c. 10 * a + (int (py_ord c) - 48)) 0 (str_nat n) =
               10 * int (n div 10) + int (n mod 10)"
      using 1 by (simp add: str_nat.simps [of n] py_ord_digit_char)
    moreover have "10 * int (n div 10) + int (n mod 10) = int n"
      by (metis mult_div_mod_eq of_nat_add of_nat_mult of_nat_numeral)
    ultimately show ?thesis by simp
  qed
qed

lemma py_int_str_nat:
  "length (str_nat n) \<le> MAX_STR_DIGITS \<Longrightarrow> py_int (str_nat n) = Inr (int n)"
  using str_nat_digits [of n] by (simp add: py_int_def digits_value_str_nat)

lemma isnumeric_str_nat: "isnumeric (str_nat n)"
  using str_nat_digits [of n] by (auto simp: isnumeric_def list_all_iff is_digit_numeric)

lemma format_num:
  assumes "grammar_num v"
  shows "\<exists>t. format_ios v = Inr t \<and> valid_num t \<and> to_int_if_numeric (Some t) = Inr v"
proof (cases v)
  case (IntV n)
  then have n: "0 \<le> n" "length (str_nat (nat n)) \<le> MAX_STR_DIGITS"
    using assms by (simp_all add: grammar_num_def)
  then have "format_ios v = Inr (str_nat (nat n))" using IntV by (simp add: str_int_def)
  then show ?thesis
    using str_nat_digits [of "nat n"] isnumeric_str_nat [of "nat n"] py_int_str_nat [OF n(2)]
      n(1) IntV
    by (simp add: valid_num_def)
next
  case (StrV s)
  then have "s \<in> {''^'', ''*'', ''-''}" using assms by (simp add: grammar_num_def)
  then show ?thesis using StrV mode_not_numeric [of s] by (auto simp: valid_num_def)
qed

lemma not_hash_at: "\<not> in_set HASH_CHARS CHR ''@''"
  by (simp add: HASH_CHARS_def is_digit_def is_word_def py_ord_def)

lemma not_branch_at_plus: "\<not> in_set BRANCH_CHARS CHR ''@''" "\<not> in_set BRANCH_CHARS CHR ''+''"
  by (simp_all add: BRANCH_CHARS_def)

lemma not_digit_separators:
  "\<not> is_digit CHR ''.''" "\<not> is_digit CHR ''-''" "\<not> is_digit CHR ''+''" "\<not> is_digit CHR ''@''"
  by (simp_all add: is_digit_def py_ord_def)

lemma mode_time_chars:
  assumes "t \<in> {''^'', ''*'', ''-''}"
  shows "t \<noteq> [] \<and> (list_all (in_set TIME_CHARS) t \<or> t = ''*'')"
  using assms by (auto simp: TIME_CHARS_def)

lemma suffix_part_hd:
  "suffix_part c x @ r = r \<or> (suffix_part c x @ r \<noteq> [] \<and> hd (suffix_part c x @ r) = c)"
  by (cases x) auto

lemma tail_hash:
  assumes "grammar_hash bh" "T \<noteq> []" "list_all (in_set TIME_CHARS) T \<or> T = ''*''"
  shows "\<exists>n'. first_match (Seq HASH_PART (Seq TIME_PART Eol))
                 (n, suffix_part CHR ''+'' bh @ CHR ''@'' # T, g)
               = Some (n', [], (set_opt 5 bh g)(6 \<mapsto> T))"
proof (cases bh)
  case None
  have "first_match (Seq HASH_PART (Seq TIME_PART Eol)) (n, CHR ''@'' # T, g) =
        first_match (Seq TIME_PART Eol) (n, CHR ''@'' # T, g)"
    unfolding HASH_PART_def by (rule opt_prefixed_absent) simp
  then show ?thesis
    using None time_tail [OF assms(2,3), of n g] by (simp add: set_opt_def)
next
  case (Some h)
  then have h: "h \<noteq> []" "list_all (in_set HASH_CHARS) h"
    using assms(1) by (simp_all add: grammar_hash_def hash_token_def)
  have "first_match (Seq HASH_PART (Seq TIME_PART Eol)) (n, CHR ''+'' # h @ CHR ''@'' # T, g) =
        Some (Suc (Suc n + length h) + length T, [], g(5 \<mapsto> h, 6 \<mapsto> T))"
    unfolding HASH_PART_def
    using h not_hash_at time_tail [OF assms(2,3), of "Suc n + length h" "g(5 \<mapsto> h)"]
    by (intro opt_prefixed_present) auto
  then show ?thesis using Some h by (simp add: set_opt_def)
qed

lemma tail_branch:
  assumes "grammar_branch br" "grammar_hash bh" "T \<noteq> []"
          "list_all (in_set TIME_CHARS) T \<or> T = ''*''"
  shows "\<exists>n'. first_match (Seq BRANCH_PART (Seq HASH_PART (Seq TIME_PART Eol)))
                 (n, suffix_part CHR ''-'' br @
                     suffix_part CHR ''+'' bh @ CHR ''@'' # T, g)
               = Some (n', [], (set_opt 5 bh (set_opt 4 br g))(6 \<mapsto> T))"
proof -
  let ?rest = "suffix_part CHR ''+'' bh @ CHR ''@'' # T"
  have hd_rest: "?rest \<noteq> [] \<and> (hd ?rest = CHR ''+'' \<or> hd ?rest = CHR ''@'')"
    using suffix_part_hd [of "CHR ''+''" bh "CHR ''@'' # T"] by auto
  show ?thesis
  proof (cases br)
    case None
    have "first_match (Seq BRANCH_PART (Seq HASH_PART (Seq TIME_PART Eol))) (n, ?rest, g) =
          first_match (Seq HASH_PART (Seq TIME_PART Eol)) (n, ?rest, g)"
      unfolding BRANCH_PART_def using hd_rest by (intro opt_prefixed_absent) auto
    then show ?thesis
      using None tail_hash [OF assms(2,3,4), of n g] by (simp add: set_opt_def)
  next
    case (Some b)
    then have b: "b \<noteq> []" "list_all (in_set BRANCH_CHARS) b"
      using assms(1) by (simp_all add: grammar_branch_def branch_token_def)
    from tail_hash [OF assms(2,3,4), of "Suc n + length b" "g(4 \<mapsto> b)"] obtain n' where
      n': "first_match (Seq HASH_PART (Seq TIME_PART Eol)) (Suc n + length b, ?rest, g(4 \<mapsto> b))
             = Some (n', [], (set_opt 5 bh (g(4 \<mapsto> b)))(6 \<mapsto> T))" by blast
    have nb: "?rest = [] \<or> \<not> in_set BRANCH_CHARS (hd ?rest)"
      using hd_rest not_branch_at_plus by metis
    have "first_match (Seq BRANCH_PART (Seq HASH_PART (Seq TIME_PART Eol)))
            (n, CHR ''-'' # b @ ?rest, g) = Some (n', [], (set_opt 5 bh (g(4 \<mapsto> b)))(6 \<mapsto> T))"
      unfolding BRANCH_PART_def
      by (rule opt_prefixed_present [OF b nb n'])
    then show ?thesis using Some b by (auto simp: set_opt_def)
  qed
qed

lemma regex_first:
  assumes "valid_num M1" "valid_num M2" "valid_num M3"
          "grammar_branch br" "grammar_hash bh" "T \<noteq> []"
          "list_all (in_set TIME_CHARS) T \<or> T = ''*''"
  shows "\<exists>n'. first_match VERSION_SEARCH_REGEX
                 (0, M1 @ ''.'' @ M2 @ ''.'' @ M3 @
                     suffix_part CHR ''-'' br @
                     suffix_part CHR ''+'' bh @ CHR ''@'' # T, Map.empty)
               = Some (n', [], (set_opt 5 bh (set_opt 4 br [1 \<mapsto> M1, 2 \<mapsto> M2, 3 \<mapsto> M3]))(6 \<mapsto> T))"
proof -
  let ?tail = "suffix_part CHR ''-'' br @
               suffix_part CHR ''+'' bh @ CHR ''@'' # T"
  let ?RT = "Seq BRANCH_PART (Seq HASH_PART (Seq TIME_PART Eol))"
  let ?g1 = "[1 \<mapsto> M1]"
  let ?g2 = "[1 \<mapsto> M1, 2 \<mapsto> M2]"
  let ?g3 = "[1 \<mapsto> M1, 2 \<mapsto> M2, 3 \<mapsto> M3]"
  let ?n1 = "length M1"
  let ?n2 = "Suc ?n1 + length M2"
  let ?n3 = "Suc ?n2 + length M3"
  have hd_tail: "?tail \<noteq> [] \<and> hd ?tail \<in> {CHR ''-'', CHR ''+'', CHR ''@''}"
    using suffix_part_hd [of "CHR ''-''" br "suffix_part CHR ''+'' bh @ CHR ''@'' # T"]
          suffix_part_hd [of "CHR ''+''" bh "CHR ''@'' # T"]
    by auto
  then have nd: "?tail = [] \<or> \<not> is_digit (hd ?tail)"
    using not_digit_separators by auto
  from tail_branch [OF assms(4-7), of ?n3 ?g3] obtain n' where
    t: "first_match ?RT (?n3, ?tail, ?g3) = Some (n', [], (set_opt 5 bh (set_opt 4 br ?g3))(6 \<mapsto> T))"
    by blast
  have s3: "first_match (Seq (Group 3 NUM) ?RT) (Suc ?n2, M3 @ ?tail, ?g2)
              = Some (n', [], (set_opt 5 bh (set_opt 4 br ?g3))(6 \<mapsto> T))"
    using t by (intro num_token [OF assms(3) nd]) simp
  have s2: "first_match (Seq (Group 2 NUM) (Seq DOT (Seq (Group 3 NUM) ?RT)))
              (Suc ?n1, M2 @ CHR ''.'' # M3 @ ?tail, ?g1)
              = Some (n', [], (set_opt 5 bh (set_opt 4 br ?g3))(6 \<mapsto> T))"
    using s3 not_digit_separators(1)
    by (intro num_token [OF assms(2)]) (simp_all add: first_match_Seq_DOT)
  have s1: "first_match (Seq (Group 1 NUM) (Seq DOT (Seq (Group 2 NUM) (Seq DOT (Seq (Group 3 NUM) ?RT)))))
              (0, M1 @ CHR ''.'' # M2 @ CHR ''.'' # M3 @ ?tail, Map.empty)
              = Some (n', [], (set_opt 5 bh (set_opt 4 br ?g3))(6 \<mapsto> T))"
    using s2 not_digit_separators(1)
    by (intro num_token [OF assms(1)]) (simp_all add: first_match_Seq_DOT)
  then show ?thesis
    unfolding VERSION_SEARCH_REGEX_def first_match_Seq_Bol by auto
qed

lemma query_eq_refl: "query_eq q q"
proof -
  have "py_eq x x" for x by (cases x) (auto simp: datetime_eq_def)
  then show ?thesis by (simp add: query_eq_def)
qed

lemma hash_not_mode:
  assumes "grammar_hash bh"
  shows "bh \<notin> {Some ''^'', Some ''-''}"
  using assms
  by (auto simp: grammar_hash_def hash_token_def HASH_CHARS_def is_digit_def is_word_def py_ord_def)

lemma in_grammar_valid:
  assumes "in_grammar fromisoformat datetime_str q"
  shows "post_init q = Inr ()"
proof -
  have n: "\<not> (\<exists>x. v = StrV x \<and> x \<notin> {''^'', ''*'', ''-''})" if "grammar_num v" for v
    using that by (cases v) (auto simp: grammar_num_def)
  have t: "\<not> (\<exists>x. q_commit_time q = TStrV x \<and> x \<notin> {''^'', ''*'', ''-''})"
    using assms by (cases "q_commit_time q") (auto simp: in_grammar_def grammar_time_def)
  have "check_positions [ios_val (q_major q), ios_val (q_minor q), ios_val (q_patch q),
                         dos_val (q_commit_time q)] = Inr ()"
    unfolding positions_ok_iff
    using assms n [of "q_major q"] n [of "q_minor q"] n [of "q_patch q"] t
    by (simp add: in_grammar_def)
  moreover have "q_build_hash q \<notin> {Some ''^'', Some ''-''}"
    using assms hash_not_mode by (simp add: in_grammar_def)
  moreover have "q_branch q \<notin> {Some ''^'', Some ''-''}"
    using assms by (auto simp: in_grammar_def grammar_branch_def)
  ultimately show ?thesis unfolding post_init_ok_iff by simp
qed

lemma parse_tuple_roundtrip:
  assumes "in_grammar fromisoformat datetime_str q"
  shows "\<exists>text. to_string datetime_str q = Inr text \<and>
           parse_tuple fromisoformat text =
             Inr (q_major q, q_minor q, q_patch q, q_branch q, q_build_hash q, q_commit_time q)"
proof -
  let ?T = "format_dos datetime_str (q_commit_time q)"
  let ?br = "q_branch q" and ?bh = "q_build_hash q"
  from assms have g: "grammar_num (q_major q)" "grammar_num (q_minor q)" "grammar_num (q_patch q)"
      "grammar_branch ?br" "grammar_hash ?bh"
      "grammar_time fromisoformat datetime_str (q_commit_time q)"
    by (simp_all add: in_grammar_def)
  from format_num [OF g(1)] obtain M1 where
    M1: "format_ios (q_major q) = Inr M1" "valid_num M1" "to_int_if_numeric (Some M1) = Inr (q_major q)"
    by blast
  from format_num [OF g(2)] obtain M2 where
    M2: "format_ios (q_minor q) = Inr M2" "valid_num M2" "to_int_if_numeric (Some M2) = Inr (q_minor q)"
    by blast
  from format_num [OF g(3)] obtain M3 where
    M3: "format_ios (q_patch q) = Inr M3" "valid_num M3" "to_int_if_numeric (Some M3) = Inr (q_patch q)"
    by blast
  have T: "?T \<noteq> [] \<and> (list_all (in_set TIME_CHARS) ?T \<or> ?T = ''*'')"
  proof (cases "q_commit_time q")
    case (DtV d)
    then show ?thesis using g(6) by (auto simp: grammar_time_def time_token_def Let_def)
  next
    case (TStrV s)
    then show ?thesis using g(6) mode_time_chars [of s] by (simp add: grammar_time_def)
  qed
  have tr: "truthy_dos (q_commit_time q)"
    using T by (cases "q_commit_time q") auto
  have ct: "(if ?T \<notin> set [''^'', ''*'', ''-'']
             then (case fromisoformat ?T of Some d \<Rightarrow> DtV d | None \<Rightarrow> TStrV ?T)
             else TStrV ?T) = q_commit_time q"
    using g(6) by (cases "q_commit_time q") (auto simp: grammar_time_def Let_def)
  let ?text = "M1 @ ''.'' @ M2 @ ''.'' @ M3 @ suffix_part CHR ''-'' ?br @
               suffix_part CHR ''+'' ?bh @ CHR ''@'' # ?T"
  have str: "to_string datetime_str q = Inr ?text"
    using tr M1(1) M2(1) M3(1) by (simp add: to_string_def)
  let ?G = "(set_opt 5 ?bh (set_opt 4 ?br [1 \<mapsto> M1, 2 \<mapsto> M2, 3 \<mapsto> M3]))(6 \<mapsto> ?T)"
  from regex_first [of M1 M2 M3 ?br ?bh ?T] M1(2) M2(2) M3(2) g T obtain n' where
    "first_match VERSION_SEARCH_REGEX (0, ?text, Map.empty) = Some (n', [], ?G)"
    by blast
  then have m: "re_match VERSION_SEARCH_REGEX ?text = Some ?G"
    by (simp add: re_match_first)
  have G: "?G 1 = Some M1" "?G 2 = Some M2" "?G 3 = Some M3" "?G 4 = ?br" "?G 5 = ?bh"
          "?G 6 = Some ?T"
    by (simp_all add: set_opt_def split: option.splits)
  have "parse_tuple fromisoformat ?text =
          Inr (q_major q, q_minor q, q_patch q, q_branch q, q_build_hash q, q_commit_time q)"
    unfolding parse_tuple_def m option.case Let_def G
    using M1(3) M2(3) M3(3) ct
    by simp
  with str show ?thesis by blast
qed

text \<open>
  A query whose fields fit the tokens of the grammar is given back by parsing its
  string.
\<close>

lemma grammar_query_roundtrip:
  assumes "in_grammar fromisoformat datetime_str q"
  shows "reparse fromisoformat datetime_str q = Inr q \<and> query_eq q q"
proof -
  have q: "\<lparr>q_major = q_major q, q_minor = q_minor q, q_patch = q_patch q,
            q_branch = q_branch q, q_build_hash = q_build_hash q,
            q_commit_time = q_commit_time q\<rparr> = q"
    by (cases q) simp
  from parse_tuple_roundtrip [OF assms] obtain out where
    "to_string datetime_str q = Inr out"
    "parse_tuple fromisoformat out =
       Inr (q_major q, q_minor q, q_patch q, q_branch q, q_build_hash q, q_commit_time q)"
    by blast
  then show ?thesis
    using in_grammar_valid [OF assms] query_eq_refl [of q]
    by (simp add: reparse_def parse_def new_query_def Let_def q)
qed

lemma stable_at_in_grammar: "in_grammar sample_fromisoformat sample_datetime_str stable_at_query"
  by code_simp

text \<open>A query with a branch, a build hash and a timestamp.\<close>

lemma stable_at_roundtrip:
  "to_string sample_datetime_str stable_at_query =
     Inr ''^.12.*-stable+cb886aba06d5@2020-05-04 00:00:00+00:00'' \<and>
   reparse sample_fromisoformat sample_datetime_str stable_at_query = Inr stable_at_query"
proof -
  have s: "to_string sample_datetime_str stable_at_query =
     Inr ''^.12.*-stable+cb886aba06d5@2020-05-04 00:00:00+00:00''"
    by code_simp
  from grammar_query_roundtrip [OF stable_at_in_grammar] s
  show ?thesis by simp
qed

text \<open>
  The grammar cannot carry every valid query. Each of these queries passes validation:
  with the empty branch its string parses to the query without branch; with branch
  \<open>a+b\<close> it parses to branch \<open>a\<close> and build hash \<open>b\<close>; with major \<open>-1\<close> its string
  does not parse.
\<close>

lemma roundtrip_outside_grammar:
  "post_init (version_query 1 (Some []) None (TStrV ''^'')) = Inr () \<and>
   (\<forall>f g. reparse f g (version_query 1 (Some []) None (TStrV ''^'')) =
      Inr (version_query 1 None None (TStrV ''^''))) \<and>
   \<not> query_eq (version_query 1 None None (TStrV ''^'')) (version_query 1 (Some []) None (TStrV ''^'')) \<and>
   post_init (version_query 1 (Some ''a+b'') None (TStrV ''^'')) = Inr () \<and>
   (\<forall>f g. reparse f g (version_query 1 (Some ''a+b'') None (TStrV ''^'')) =
      Inr (version_query 1 (Some ''a'') (Some ''b'') (TStrV ''^''))) \<and>
   \<not> query_eq (version_query 1 (Some ''a'') (Some ''b'') (TStrV ''^''))
        (version_query 1 (Some ''a+b'') None (TStrV ''^'')) \<and>
   post_init (version_query (- 1) None None (TStrV ''^'')) = Inr () \<and>
   (\<forall>f g. reparse f g (version_query (- 1) None None (TStrV ''^'')) =
      Inl (ValueError ''Invalid version search query: -1.2.3@^''))"
  by (intro conjI allI; code_simp)

text \<open>
  Claim C2. \<open>__str__\<close> is documented to return a string that \<open>parse\<close> can parse, and
  the claim is that parsing it gives the query back. The query 1.2.3 with build hash
  \<open>*\<close> is valid and its string is \<open>1.2.3+*@^\<close>, which \<open>parse\<close> rejects: the build hash
  of the regular expression has no \<open>*\<close>. The query 1.2.3 at the commit time
  2020-05-04 01:02:03.000005 is valid and its string has the \<open>.\<close> of the microseconds,
  which the commit time of the regular expression lacks: \<open>parse\<close> rejects it as well.
\<close>

theorem serialized_query_rejected:
  "new_query (IntV 1) (IntV 2) (IntV 3) None (Some ''*'') (TStrV ''^'') =
     Inr (version_query 1 None (Some ''*'') (TStrV ''^'')) \<and>
   (\<forall>g. to_string g (version_query 1 None (Some ''*'') (TStrV ''^'')) = Inr ''1.2.3+*@^'') \<and>
   (\<forall>f. parse f ''1.2.3+*@^'' = Inl (ValueError ''Invalid version search query: 1.2.3+*@^'')) \<and>
   (\<forall>f g. reparse f g (version_query 1 None (Some ''*'') (TStrV ''^'')) =
      Inl (ValueError ''Invalid version search query: 1.2.3+*@^'')) \<and>
   new_query (IntV 1) (IntV 2) (IntV 3) None None (DtV (naive_datetime 63724150923000005)) =
     Inr (version_query 1 None None (DtV (naive_datetime 63724150923000005))) \<and>
   to_string micro_datetime_str (version_query 1 None None (DtV (naive_datetime 63724150923000005))) =
     Inr ''1.2.3@2020-05-04 01:02:03.000005'' \<and>
   (\<forall>f. reparse f micro_datetime_str
           (version_query 1 None None (DtV (naive_datetime 63724150923000005))) =
      Inl (ValueError ''Invalid version search query: 1.2.3@2020-05-04 01:02:03.000005''))"
  by (intro conjI allI; code_simp)

section \<open>The strings the regular expression matches\<close>

lemma matches_sound:
  "(n', s', g') \<in> set (matches r (n, s, g)) \<Longrightarrow> take (n' - n) s \<in> lang r"
proof (induction r arbitrary: n s g n' s' g')
  case (Chr cs)
  then show ?case by (cases s) (auto split: if_splits)
next
  case (Plus cs)
  then show ?case using plus_matches_elem [of "(n', s', g')" cs n s g] by auto
next
  case (Seq a b)
  then obtain n1 s1 g1 where
    a: "(n1, s1, g1) \<in> set (matches a (n, s, g))" and
    b: "(n', s', g') \<in> set (matches b (n1, s1, g1))"
    by auto
  from matches_inv [OF a] matches_inv [OF b]
  have i: "n \<le> n1" "n1 \<le> n'" "s1 = drop (n1 - n) s" "n1 - n \<le> length s" by auto
  have "take (n' - n) s = take (n1 - n) s @ take (n' - n1) s1"
  proof -
    have "n' - n = (n1 - n) + (n' - n1)" using i by simp
    then show ?thesis using i(3) by (simp add: take_add)
  qed
  then show ?case using Seq.IH(1) [OF a] Seq.IH(2) [OF b] by auto
next
  case (Group k a)
  then show ?case by auto
qed (auto split: if_splits)

lemma plus_matches_complete:
  assumes "w \<noteq> []" "list_all (in_set cs) w"
  shows "(n + length w, rest, g) \<in> set (plus_matches cs (n, w @ rest, g))"
  using assms
proof (induction w arbitrary: n)
  case Nil
  then show ?case by simp
next
  case (Cons c w)
  show ?case
  proof (cases "w = []")
    case True
    then show ?thesis using Cons.prems by simp
  next
    case False
    from Cons.IH [OF False, of "Suc n"] Cons.prems show ?thesis by simp
  qed
qed

lemma matches_complete:
  assumes "w \<in> lang r" "anchor_free r"
  shows "\<exists>g'. (n + length w, rest, g') \<in> set (matches r (n, w @ rest, g))"
  using assms
proof (induction r arbitrary: w n g rest)
  case (Chr cs)
  then show ?case by auto
next
  case (Plus cs)
  then show ?case using plus_matches_complete [of w cs n rest g] by auto
next
  case (Seq a b)
  then obtain u v where uv: "w = u @ v" "u \<in> lang a" "v \<in> lang b" by auto
  have af: "anchor_free a" "anchor_free b" using Seq.prems(2) by simp_all
  from Seq.IH(1) [OF uv(2) af(1), where n = n and rest = "v @ rest" and g = g] obtain g1 where
    a: "(n + length u, v @ rest, g1) \<in> set (matches a (n, u @ v @ rest, g))" by auto
  from Seq.IH(2) [OF uv(3) af(2), where n = "n + length u" and rest = rest and g = g1] obtain g2 where
    b: "(n + length u + length v, rest, g2) \<in> set (matches b (n + length u, v @ rest, g1))" by auto
  have "(n + length w, rest, g2) \<in> set (matches (Seq a b) (n, w @ rest, g))"
    using a b uv(1) by (auto simp: add.assoc)
  then show ?case by blast
next
  case (Alt a b)
  then show ?case by fastforce
next
  case (Opt a)
  then show ?case by fastforce
next
  case (Group k a)
  then obtain g1 where g1: "(n + length w, rest, g1) \<in> set (matches a (n, w @ rest, g))"
    by fastforce
  have "(n + length w, rest, g1(k \<mapsto> w)) \<in> set (matches (Group k a) (n, w @ rest, g))"
    using g1 by (force simp: image_iff)
  then show ?case by blast
qed auto

lemma tail_anchored_rest:
  assumes "tail_anchored r" "(n', s', g') \<in> set (matches r st)"
  shows "s' = [] \<or> s' = [CHR 0x0A]"
  using assms
proof (induction r arbitrary: st)
  case Eol
  then show ?case by (cases st) (auto split: if_splits)
next
  case (Seq a b)
  then show ?case by auto
qed simp_all

lemma tail_anchored_complete:
  assumes "tail_anchored r" "w \<in> lang r" "e = [] \<or> e = [CHR 0x0A]"
  shows "matches r (n, w @ e, g) \<noteq> []"
  using assms
proof (induction r arbitrary: w n g)
  case Eol
  then show ?case by auto
next
  case (Seq a b)
  then obtain u v where uv: "w = u @ v" "u \<in> lang a" "v \<in> lang b" by auto
  have af: "anchor_free a" "tail_anchored b" using Seq.prems(1) by simp_all
  from matches_complete [OF uv(2) af(1), of n "v @ e" g] obtain g1 where
    a: "(n + length u, v @ e, g1) \<in> set (matches a (n, u @ v @ e, g))" by auto
  from Seq.IH(2) [OF af(2) uv(3) Seq.prems(3), of "n + length u" g1]
  have b: "matches b (n + length u, v @ e, g1) \<noteq> []" .
  show ?case using a b uv(1) by auto
qed simp_all

lemma regex_shape:
  "\<exists>body. VERSION_SEARCH_REGEX = Seq Bol body \<and> tail_anchored body"
  by (simp add: VERSION_SEARCH_REGEX_def NUM_def DOT_def BRANCH_PART_def HASH_PART_def TIME_PART_def)

text \<open>The matcher finds a match exactly for the strings of the language.\<close>

lemma grammar_iff: "re_match VERSION_SEARCH_REGEX s \<noteq> None \<longleftrightarrow> matches_grammar s"
proof -
  obtain body where body: "VERSION_SEARCH_REGEX = Seq Bol body" "tail_anchored body"
    using regex_shape by blast
  have m: "matches VERSION_SEARCH_REGEX (0, s, g) = matches body (0, s, g)" for s g
    by (simp add: body(1))
  have l: "lang VERSION_SEARCH_REGEX = lang body" by (simp add: body(1))
  show ?thesis
  proof
    assume "re_match VERSION_SEARCH_REGEX s \<noteq> None"
    then obtain n' s' g' where x: "(n', s', g') \<in> set (matches body (0, s, Map.empty))"
      unfolding re_match_def m by (cases "matches body (0, s, Map.empty)") auto
    from matches_sound [OF x] have w: "take n' s \<in> lang body" by simp
    from matches_inv [OF x] have "s' = drop n' s" by simp
    moreover from tail_anchored_rest [OF body(2) x] have "s' = [] \<or> s' = [CHR 0x0A]" .
    ultimately have "s = take n' s @ s' \<and> (s' = [] \<or> s' = [CHR 0x0A])" by simp
    with w show "matches_grammar s" unfolding matches_grammar_def l by blast
  next
    assume "matches_grammar s"
    then obtain w e where we: "s = w @ e" "w \<in> lang body" "e = [] \<or> e = [CHR 0x0A]"
      unfolding matches_grammar_def l by blast
    from tail_anchored_complete [OF body(2) we(2,3), of 0 Map.empty]
    show "re_match VERSION_SEARCH_REGEX s \<noteq> None"
      unfolding re_match_def m we(1) by (auto split: list.splits)
  qed
qed

lemma lang_NUM: "t \<in> lang NUM \<longleftrightarrow> valid_num t"
  by (auto simp: NUM_def valid_num_def in_MODE list_all_iff)

lemma lang_DOT: "t \<in> lang DOT \<longleftrightarrow> t = ''.''"
  by (auto simp: DOT_def)

lemma lang_optional:
  assumes "\<And>t. t \<in> lang r \<longleftrightarrow> token t"
  shows "p \<in> lang (Opt (Seq (Chr (In [Lit c])) (Group k r))) \<longleftrightarrow> optional_part c token p"
  using assms by (cases p) (auto simp: optional_part_def)

lemma lang_BRANCH_PART: "p \<in> lang BRANCH_PART \<longleftrightarrow> optional_part CHR ''-'' branch_token p"
  unfolding BRANCH_PART_def by (rule lang_optional) (simp add: branch_token_def)

lemma lang_HASH_PART: "p \<in> lang HASH_PART \<longleftrightarrow> optional_part CHR ''+'' hash_token p"
  unfolding HASH_PART_def by (rule lang_optional) (simp add: hash_token_def)

lemma lang_TIME_PART: "p \<in> lang TIME_PART \<longleftrightarrow> optional_part CHR ''@'' time_token p"
  unfolding TIME_PART_def by (rule lang_optional) (auto simp: time_token_def in_MODE)

lemma lang_SeqI: "u \<in> lang a \<Longrightarrow> v \<in> lang b \<Longrightarrow> u @ v \<in> lang (Seq a b)"
  by auto

lemma lang_SeqE:
  assumes "w \<in> lang (Seq a b)"
  obtains u v where "w = u @ v" "u \<in> lang a" "v \<in> lang b"
  using assms by auto

lemma lang_regex:
  "w \<in> lang VERSION_SEARCH_REGEX \<longleftrightarrow>
     (\<exists>ma mi pa br bh ct.
        w = ma @ ''.'' @ mi @ ''.'' @ pa @ br @ bh @ ct \<and>
        valid_num ma \<and> valid_num mi \<and> valid_num pa \<and>
        optional_part CHR ''-'' branch_token br \<and>
        optional_part CHR ''+'' hash_token bh \<and>
        optional_part CHR ''@'' time_token ct)"
proof
  assume "w \<in> lang VERSION_SEARCH_REGEX"
  then obtain u0 w1 where 0: "w = u0 @ w1" "u0 \<in> lang Bol"
      "w1 \<in> lang (Seq (Group 1 NUM) (Seq DOT (Seq (Group 2 NUM) (Seq DOT (Seq (Group 3 NUM)
              (Seq BRANCH_PART (Seq HASH_PART (Seq TIME_PART Eol))))))))"
    unfolding VERSION_SEARCH_REGEX_def by (rule lang_SeqE)
  from 0(3) obtain ma w2 where 1: "w1 = ma @ w2" "ma \<in> lang (Group 1 NUM)"
      "w2 \<in> lang (Seq DOT (Seq (Group 2 NUM) (Seq DOT (Seq (Group 3 NUM)
              (Seq BRANCH_PART (Seq HASH_PART (Seq TIME_PART Eol)))))))"
    by (rule lang_SeqE)
  from 1(3) obtain d1 w3 where 2: "w2 = d1 @ w3" "d1 \<in> lang DOT"
      "w3 \<in> lang (Seq (Group 2 NUM) (Seq DOT (Seq (Group 3 NUM)
              (Seq BRANCH_PART (Seq HASH_PART (Seq TIME_PART Eol))))))"
    by (rule lang_SeqE)
  from 2(3) obtain mi w4 where 3: "w3 = mi @ w4" "mi \<in> lang (Group 2 NUM)"
      "w4 \<in> lang (Seq DOT (Seq (Group 3 NUM)
              (Seq BRANCH_PART (Seq HASH_PART (Seq TIME_PART Eol)))))"
    by (rule lang_SeqE)
  from 3(3) obtain d2 w5 where 4: "w4 = d2 @ w5" "d2 \<in> lang DOT"
      "w5 \<in> lang (Seq (Group 3 NUM) (Seq BRANCH_PART (Seq HASH_PART (Seq TIME_PART Eol))))"
    by (rule lang_SeqE)
  from 4(3) obtain pa w6 where 5: "w5 = pa @ w6" "pa \<in> lang (Group 3 NUM)"
      "w6 \<in> lang (Seq BRANCH_PART (Seq HASH_PART (Seq TIME_PART Eol)))"
    by (rule lang_SeqE)
  from 5(3) obtain br w7 where 6: "w6 = br @ w7" "br \<in> lang BRANCH_PART"
      "w7 \<in> lang (Seq HASH_PART (Seq TIME_PART Eol))"
    by (rule lang_SeqE)
  from 6(3) obtain bh w8 where 7: "w7 = bh @ w8" "bh \<in> lang HASH_PART"
      "w8 \<in> lang (Seq TIME_PART Eol)"
    by (rule lang_SeqE)
  from 7(3) obtain ct w9 where 8: "w8 = ct @ w9" "ct \<in> lang TIME_PART" "w9 \<in> lang Eol"
    by (rule lang_SeqE)
  have "w = ma @ ''.'' @ mi @ ''.'' @ pa @ br @ bh @ ct"
    using 0(1,2) 1(1) 2(1,2) 3(1) 4(1,2) 5(1) 6(1) 7(1) 8(1,3) by (simp add: lang_DOT)
  moreover have "valid_num ma" "valid_num mi" "valid_num pa"
    using 1(2) 3(2) 5(2) lang_NUM by simp_all
  moreover have "optional_part CHR ''-'' branch_token br" using 6(2) lang_BRANCH_PART by simp
  moreover have "optional_part CHR ''+'' hash_token bh" using 7(2) lang_HASH_PART by simp
  moreover have "optional_part CHR ''@'' time_token ct" using 8(2) lang_TIME_PART by simp
  ultimately show "\<exists>ma mi pa br bh ct.
        w = ma @ ''.'' @ mi @ ''.'' @ pa @ br @ bh @ ct \<and>
        valid_num ma \<and> valid_num mi \<and> valid_num pa \<and>
        optional_part CHR ''-'' branch_token br \<and>
        optional_part CHR ''+'' hash_token bh \<and>
        optional_part CHR ''@'' time_token ct"
    by blast
next
  assume "\<exists>ma mi pa br bh ct.
        w = ma @ ''.'' @ mi @ ''.'' @ pa @ br @ bh @ ct \<and>
        valid_num ma \<and> valid_num mi \<and> valid_num pa \<and>
        optional_part CHR ''-'' branch_token br \<and>
        optional_part CHR ''+'' hash_token bh \<and>
        optional_part CHR ''@'' time_token ct"
  then obtain ma mi pa br bh ct where
    w: "w = ma @ ''.'' @ mi @ ''.'' @ pa @ br @ bh @ ct" and
    t: "valid_num ma" "valid_num mi" "valid_num pa"
       "optional_part CHR ''-'' branch_token br" "optional_part CHR ''+'' hash_token bh"
       "optional_part CHR ''@'' time_token ct"
    by blast
  have n: "ma \<in> lang (Group 1 NUM)" "mi \<in> lang (Group 2 NUM)" "pa \<in> lang (Group 3 NUM)"
    using t(1-3) lang_NUM by simp_all
  have d: "''.'' \<in> lang DOT" by (simp add: lang_DOT)
  have p: "br \<in> lang BRANCH_PART" "bh \<in> lang HASH_PART" "ct \<in> lang TIME_PART"
    using t(4-6) lang_BRANCH_PART lang_HASH_PART lang_TIME_PART by simp_all
  have e: "[] \<in> lang Eol" "[] \<in> lang Bol" by simp_all
  have "[] @ ma @ ''.'' @ mi @ ''.'' @ pa @ br @ bh @ ct @ [] \<in> lang VERSION_SEARCH_REGEX"
    unfolding VERSION_SEARCH_REGEX_def
    by (intro lang_SeqI n d p e)
  then show "w \<in> lang VERSION_SEARCH_REGEX" using w by simp
qed

lemma query_text_lang: "query_text s \<longleftrightarrow> s \<in> lang VERSION_SEARCH_REGEX"
  unfolding query_text_def lang_regex by simp

text \<open>
  The matcher finds a match for the query texts, and for a query text followed by one
  newline.
\<close>

lemma regex_matches_iff:
  "re_match VERSION_SEARCH_REGEX s \<noteq> None \<longleftrightarrow>
     query_text s \<or> (\<exists>w. s = w @ [CHR 0x0A] \<and> query_text w)"
  unfolding grammar_iff matches_grammar_def query_text_lang by auto

lemma digit_not_newline: "\<not> is_digit (CHR 0x0A)"
  by (simp add: is_digit_def py_ord_def)

lemma valid_num_no_newline: "valid_num t \<Longrightarrow> CHR 0x0A \<notin> set t"
  using digit_not_newline by (auto simp: valid_num_def list_all_iff)

lemma branch_token_no_newline: "branch_token t \<Longrightarrow> CHR 0x0A \<notin> set t"
proof -
  have "\<not> in_set BRANCH_CHARS (CHR 0x0A)"
    by (simp add: BRANCH_CHARS_def is_space_def py_ord_def)
  then show "branch_token t \<Longrightarrow> CHR 0x0A \<notin> set t"
    by (auto simp: branch_token_def list_all_iff)
qed

lemma hash_token_no_newline: "hash_token t \<Longrightarrow> CHR 0x0A \<notin> set t"
proof -
  have "\<not> in_set HASH_CHARS (CHR 0x0A)"
    by (simp add: HASH_CHARS_def is_digit_def is_word_def py_ord_def)
  then show "hash_token t \<Longrightarrow> CHR 0x0A \<notin> set t"
    by (auto simp: hash_token_def list_all_iff)
qed

lemma time_token_no_newline: "time_token t \<Longrightarrow> CHR 0x0A \<notin> set t"
  using time_chars_not_newline by (auto simp: time_token_def list_all_iff)

lemma optional_part_no_newline:
  assumes "optional_part c token p" "c \<noteq> CHR 0x0A" "\<And>t. token t \<Longrightarrow> CHR 0x0A \<notin> set t"
  shows "CHR 0x0A \<notin> set p"
proof (cases p)
  case Nil
  then show ?thesis by simp
next
  case (Cons x r)
  then have "x = c" "token r" using assms(1) by (simp_all add: optional_part_def)
  then show ?thesis using Cons assms(2,3) by auto
qed

lemma query_text_no_newline:
  assumes "query_text s"
  shows "CHR 0x0A \<notin> set s"
proof -
  from assms obtain ma mi pa br bh ct where
    s: "s = ma @ ''.'' @ mi @ ''.'' @ pa @ br @ bh @ ct" and
    t: "valid_num ma" "valid_num mi" "valid_num pa"
       "optional_part CHR ''-'' branch_token br" "optional_part CHR ''+'' hash_token bh"
       "optional_part CHR ''@'' time_token ct"
    unfolding query_text_def by blast
  have "CHR 0x0A \<notin> set ma" "CHR 0x0A \<notin> set mi" "CHR 0x0A \<notin> set pa"
    using t(1-3) valid_num_no_newline by simp_all
  moreover have "CHR 0x0A \<notin> set br"
    using optional_part_no_newline [OF t(4)] branch_token_no_newline by simp
  moreover have "CHR 0x0A \<notin> set bh"
    using optional_part_no_newline [OF t(5)] hash_token_no_newline by simp
  moreover have "CHR 0x0A \<notin> set ct"
    using optional_part_no_newline [OF t(6)] time_token_no_newline by simp
  ultimately show ?thesis unfolding s by simp
qed

text \<open>
  For an input that is neither a query text nor a query text followed by one newline,
  \<open>parse\<close> raises the ValueError whose message ends with the input.
\<close>

lemma unmatched_input_raises:
  assumes "\<not> query_text s" "\<And>w. s = w @ [CHR 0x0A] \<Longrightarrow> \<not> query_text w"
  shows "parse fromisoformat s = Inl (ValueError (''Invalid version search query: '' @ s))"
proof -
  have "re_match VERSION_SEARCH_REGEX s = None"
    using regex_matches_iff [of s] assms by blast
  then show ?thesis by (simp add: parse_def parse_tuple_def)
qed

text \<open>The malformed input of \<open>test_search_query_parser\<close>.\<close>

lemma abc_raises:
  "\<not> query_text ''abc'' \<and>
   parse no_datetime ''abc'' = Inl (ValueError ''Invalid version search query: abc'')"
proof -
  have "re_match VERSION_SEARCH_REGEX ''abc'' = None" by code_simp
  then show ?thesis
    using regex_matches_iff [of "''abc''"] by (simp add: parse_def parse_tuple_def)
qed

text \<open>
  Claim C7. The text \<open>1.2.3\<close> followed by a newline is not a query text: the grammar is
  anchored at both ends, and the breakdown of the regular expression in the source
  reads \<open>$\<close> as the end of the string. \<open>parse\<close> raises no error on it and returns the query
  1.2.3, the newline dropped: \<open>$\<close> holds before a newline that ends the input as well.
\<close>

theorem trailing_newline_parsed:
  "\<not> query_text (''1.2.3'' @ [CHR 0x0A]) \<and>
   query_text ''1.2.3'' \<and>
   (\<forall>f. parse f (''1.2.3'' @ [CHR 0x0A]) =
      Inr \<lparr>q_major = IntV 1, q_minor = IntV 2, q_patch = IntV 3, q_branch = None,
           q_build_hash = None, q_commit_time = TStrV ''^''\<rparr>) \<and>
   (\<forall>f. parse f ''1.2.3'' =
      Inr \<lparr>q_major = IntV 1, q_minor = IntV 2, q_patch = IntV 3, q_branch = None,
           q_build_hash = None, q_commit_time = TStrV ''^''\<rparr>)"
proof (intro conjI allI)
  show "\<not> query_text (''1.2.3'' @ [CHR 0x0A])"
    using query_text_no_newline [of "''1.2.3'' @ [CHR 0x0A]"] by auto
  have "re_match VERSION_SEARCH_REGEX ''1.2.3'' \<noteq> None" by code_simp
  then show "query_text ''1.2.3''"
    using regex_matches_iff [of "''1.2.3''"] query_text_no_newline by auto
  show "parse f (''1.2.3'' @ [CHR 0x0A]) =
      Inr \<lparr>q_major = IntV 1, q_minor = IntV 2, q_patch = IntV 3, q_branch = None,
           q_build_hash = None, q_commit_time = TStrV ''^''\<rparr>" for f
    by code_simp
  show "parse f ''1.2.3'' =
      Inr \<lparr>q_major = IntV 1, q_minor = IntV 2, q_patch = IntV 3, q_branch = None,
           q_build_hash = None, q_commit_time = TStrV ''^''\<rparr>" for f
    by code_simp
qed

end
